theory Spec2Isabelle
  imports Main "HOL-Library.Word"
begin

section \<open>The Doris flusher: data model\<close>

text \<open>
  The flusher plugin (\<^verbatim>\<open>plugins/flusher/doris\<close>) sends serialized log groups to Apache
  Doris through the stream-load SDK. Go errors are values carrying their message; the
  logger is a list of entries that every function returns extended. Byte buffers are
  \<open>string\<close>s (an Isabelle \<open>char\<close> is one byte). The 64-bit counters are \<open>64 word\<close>,
  so that \<^verbatim>\<open>atomic.AddUint64\<close> wraps as it does in Go.
\<close>

datatype error = Errorf string

fun Error :: "error \<Rightarrow> string" where
  "Error (Errorf m) = m"

datatype log_level = DEBUG | INFO | WARNING

type_synonym logs = "(log_level \<times> string) list"

datatype GroupCommitMode = SYNC | ASYNC | OFF

datatype LoadStatus = FAILURE | SUCCESS

record RespContent =
  TxnID :: "64 word"
  Label :: string
  Status :: string
  TwoPhaseCommit :: string
  ExistingJobStatus :: string
  Message :: string
  NumberTotalRows :: "64 word"
  NumberLoadedRows :: "64 word"
  NumberFilteredRows :: "64 word"
  NumberUnselectedRows :: "64 word"
  LoadBytes :: "64 word"
  LoadTimeMs :: "64 word"
  BeginTxnTimeMs :: "64 word"
  StreamLoadPutTimeMs :: "64 word"
  ReadDataTimeMs :: "64 word"
  WriteDataTimeMs :: "64 word"
  CommitAndPublishTimeMs :: "64 word"
  ErrorURL :: string

record LoadResponse =
  RStatus :: LoadStatus
  Resp :: RespContent
  ErrorMessage :: string

datatype JSONType = JSONObjectLine | JSONArray

datatype Format = JSONFormat JSONType | CSVFormat string string

record Retry =
  MaxRetryTimes :: nat
  BaseIntervalMs :: nat
  MaxTotalTimeMs :: nat

record Config =
  Endpoints :: "string list"
  User :: string
  Password :: string
  Database :: string
  Table :: string
  LabelPrefix :: string
  CLabel :: string
  CFormat :: Format
  CRetry :: "Retry option"
  GroupCommit :: GroupCommitMode
  Options :: "string \<rightharpoonup> string"

record PlainTextConfig =
  Username :: string
  PPassword :: string
  PDatabase :: string

record Authentication =
  PlainText :: "PlainTextConfig option"

record convertConfig =
  TagFieldsRename :: "string \<rightharpoonup> string"
  ProtocolFieldsRename :: "string \<rightharpoonup> string"
  Protocol :: string
  Encoding :: string

text \<open>
  The statistics block of the flusher. \<open>startTime\<close> and \<open>lastReportTime\<close> are
  nanosecond readings of the clock; the zero reading is Go's zero \<^verbatim>\<open>time.Time\<close>.
\<close>

record statistics =
  startTime :: int
  totalBytes :: "64 word"
  totalRows :: "64 word"
  lastBytes :: "64 word"
  lastRows :: "64 word"
  lastReportTime :: int
  lastReportBytes :: "64 word"
  lastReportRows :: "64 word"

text \<open>
  \<open>FAddresses = None\<close> is the nil slice. \<open>dorisClient\<close> and \<open>converter\<close> are
  the two pointers that \<open>Init\<close> fills; \<open>progressTicker\<close> says whether the reporting
  goroutine has been started. The pipeline context is only the logger's handle and is
  taken as set (Init stores it before anything else).
\<close>

record ('c, 'k) FlusherDoris =
  FAddresses :: "string list option"
  FDatabase :: string
  FAuthentication :: Authentication
  FTable :: string
  LoadProperties :: "string \<rightharpoonup> string"
  LogProgressInterval :: int
  FGroupCommit :: string
  dorisClient :: "'c option"
  converter :: "'k option"
  Convert :: convertConfig
  stats :: statistics
  progressTicker :: bool
  flog :: logs

definition logger :: "log_level \<Rightarrow> string \<Rightarrow> ('c, 'k) FlusherDoris \<Rightarrow> ('c, 'k) FlusherDoris" where
  "logger lv m f = f\<lparr>flog := flog f @ [(lv, m)]\<rparr>"

definition EncodingJSON :: string where
  "EncodingJSON = ''json''"

definition ProtocolCustomSingle :: string where
  "ProtocolCustomSingle = ''custom_single''"

definition stats0 :: "int \<Rightarrow> statistics" where
  "stats0 now = \<lparr>startTime = now, totalBytes = 0, totalRows = 0, lastBytes = 0, lastRows = 0,
     lastReportTime = 0, lastReportBytes = 0, lastReportRows = 0\<rparr>"

definition NewFlusherDoris :: "int \<Rightarrow> ('c, 'k) FlusherDoris" where
  "NewFlusherDoris now =
     \<lparr>FAddresses = Some [], FDatabase = '''',
      FAuthentication = \<lparr>PlainText = Some \<lparr>Username = '''', PPassword = '''', PDatabase = ''''\<rparr>\<rparr>,
      FTable = '''', LoadProperties = Map.empty, LogProgressInterval = 10,
      FGroupCommit = ''off'', dorisClient = None, converter = None,
      Convert = \<lparr>TagFieldsRename = Map.empty, ProtocolFieldsRename = Map.empty,
                 Protocol = ProtocolCustomSingle, Encoding = EncodingJSON\<rparr>,
      stats = stats0 now, progressTicker = False, flog = []\<rparr>"

section \<open>parseGroupCommitMode\<close>

text \<open>
  \<^verbatim>\<open>strings.ToLower\<close> on the bytes of the string: the ASCII capitals move by 32, every
  other byte stays. (Go also lower-cases runes outside ASCII; none of them yields one of
  the letters of \<open>sync\<close>, \<open>async\<close> or \<open>off\<close>, so the comparisons below are the same.)
\<close>

definition toLower_byte :: "char \<Rightarrow> char" where
  "toLower_byte c =
     (let n = (of_char c :: nat) in if 65 \<le> n \<and> n \<le> 90 then char_of (n + 32) else c)"

definition ToLower :: "string \<Rightarrow> string" where
  "ToLower s = map toLower_byte s"

definition unknown_mode_msg :: "string \<Rightarrow> string" where
  "unknown_mode_msg m =
     ''Unknown group commit mode: '' @ m @ '', using '' @ [CHR 0x27] @ ''off'' @ [CHR 0x27]"

text \<open>The function returns the mode and the warnings it logged.\<close>

definition parseGroupCommitMode :: "string \<Rightarrow> GroupCommitMode \<times> logs" where
  "parseGroupCommitMode m =
     (let l = ToLower m in
      if l = ''sync'' then (SYNC, [])
      else if l = ''async'' then (ASYNC, [])
      else if l = ''off'' \<or> l = '''' then (OFF, [])
      else (OFF, [(WARNING, unknown_mode_msg m)]))"

section \<open>Statistics\<close>

definition updateStatistics :: "64 word \<Rightarrow> 64 word \<Rightarrow> statistics \<Rightarrow> statistics" where
  "updateStatistics bytes rows s =
     s\<lparr>totalBytes := totalBytes s + bytes, totalRows := totalRows s + rows,
       lastBytes := lastBytes s + bytes, lastRows := lastRows s + rows\<rparr>"

definition progress_msg :: string where
  "progress_msg = ''total %.0f MB %d ROWS, total speed %.0f MB/s %.0f R/s, last %d seconds speed %.0f MB/s %.0f R/s''"

text \<open>
  \<open>logProgress\<close> at clock reading \<open>now\<close>: the two windowed counters are swapped with
  zero, the report fields are refreshed and one line is logged. The throughput figures of
  that line are floating-point and are not part of the state; the entry keeps the format.
\<close>

definition logProgress_stats :: "int \<Rightarrow> statistics \<Rightarrow> statistics" where
  "logProgress_stats now s =
     (let tb = totalBytes s; tr = totalRows s in
      s\<lparr>lastBytes := 0, lastRows := 0, lastReportTime := now,
        lastReportBytes := tb, lastReportRows := tr\<rparr>)"

definition logProgress :: "int \<Rightarrow> ('c, 'k) FlusherDoris \<Rightarrow> ('c, 'k) FlusherDoris" where
  "logProgress now f = logger INFO progress_msg (f\<lparr>stats := logProgress_stats now (stats f)\<rparr>)"

text \<open>The operations that touch the statistics, and a run of them.\<close>

datatype stat_op = Update "64 word" "64 word" | Report int

fun stat_step :: "statistics \<Rightarrow> stat_op \<Rightarrow> statistics" where
  "stat_step s (Update b r) = updateStatistics b r s"
| "stat_step s (Report now) = logProgress_stats now s"

section \<open>The shared HTTP client\<close>

text \<open>
  \<^verbatim>\<open>util/http_client.go\<close>. A \<^verbatim>\<open>time.Duration\<close> is a signed 64-bit count of
  nanoseconds. Clients live in a heap (a list; the address is the index), so that two
  executions of \<open>buildHttpClient\<close> would give two different pointers.
\<close>

record Transport =
  MaxIdleConnsPerHost :: int
  MaxConnsPerHost :: int
  MaxIdleConns :: int
  InsecureSkipVerify :: bool

record http_Client =
  CTransport :: Transport
  Timeout :: "64 word"

definition Second :: "64 word" where
  "Second = 1000 * (1000 * (1000 * 1))"

definition buildHttpClient_value :: http_Client where
  "buildHttpClient_value =
     \<lparr>CTransport = \<lparr>MaxIdleConnsPerHost = 30, MaxConnsPerHost = 50, MaxIdleConns = 50,
                     InsecureSkipVerify = True\<rparr>,
      Timeout = 120 * Second\<rparr>"

record util_state =
  client :: "nat option"
  once :: bool
  heap :: "http_Client list"

definition util_init :: util_state where
  "util_init = \<lparr>client = None, once = False, heap = []\<rparr>"

text \<open>\<open>buildHttpClient\<close> allocates one client and returns its address.\<close>

definition buildHttpClient :: "util_state \<Rightarrow> nat \<times> util_state" where
  "buildHttpClient st = (length (heap st), st\<lparr>heap := heap st @ [buildHttpClient_value]\<rparr>)"

text \<open>
  \<^verbatim>\<open>once.Do\<close> runs its function only while the flag is unset, and sets it; calls from
  several goroutines are serialized by the \<^verbatim>\<open>sync.Once\<close>, so a process is a sequence of
  calls on the package state.
\<close>

definition GetHttpClient :: "util_state \<Rightarrow> nat option \<times> util_state" where
  "GetHttpClient st =
     (let st' = (if once st then st
                 else (let (a, st1) = buildHttpClient st in st1\<lparr>client := Some a, once := True\<rparr>))
      in (client st', st'))"

fun GetHttpClient_calls :: "nat \<Rightarrow> util_state \<Rightarrow> nat option list \<times> util_state" where
  "GetHttpClient_calls 0 st = ([], st)"
| "GetHttpClient_calls (Suc n) st =
     (let (r, st1) = GetHttpClient st; (rs, st2) = GetHttpClient_calls n st1 in (r # rs, st2))"

section \<open>Validation and initialization of the flusher\<close>

text \<open>
  The plugin is in the sources twice. The functions below follow the later copy, which
  parses the group-commit mode, sets the label prefix and keeps statistics; the earlier
  copy (\<^verbatim>\<open>flusher_doris.go\<close>) has the same \<open>Validate\<close>, the same order of steps in
  \<open>Init\<close> and the same loop in \<open>Flush\<close>, without the statistics and with the
  group-commit mode fixed.
\<close>

definition Validate :: "('c, 'k) FlusherDoris \<Rightarrow> error option \<times> ('c, 'k) FlusherDoris" where
  "Validate f =
     (if (case FAddresses f of None \<Rightarrow> True | Some a \<Rightarrow> length a = 0) then
        (let err = Errorf ''doris addrs is nil'' in
         (Some err, logger WARNING ''init doris flusher error'' f))
      else if FTable f = '''' then
        (let err = Errorf ''doris table is nil'' in
         (Some err, logger WARNING ''init doris flusher error'' f))
      else (None, f))"

text \<open>
  Modelled from the spec: \<open>Authentication.GetUsernamePassword\<close> (the plugin's
  authentication file is not among the sources). The spec's ConfigError covers missing
  credentials; the unit test \<^verbatim>\<open>TestAuthentication_GetUsernamePassword\<close> fixes the cases:
  a nil plaintext block, an empty username and an empty password are errors whose message
  names what is missing, and otherwise the pair is returned.
\<close>

definition GetUsernamePassword :: "Authentication \<Rightarrow> error + (string \<times> string)" where
  "GetUsernamePassword a =
     (case PlainText a of
        None \<Rightarrow> Inl (Errorf ''plaintext authentication config is not set'')
      | Some p \<Rightarrow>
          if Username p = '''' then Inl (Errorf ''username is not set'')
          else if PPassword p = '''' then Inl (Errorf ''password is not set'')
          else Inr (Username p, PPassword p))"

text \<open>
  The SDK's defaults, as its documentation in the repository gives them:
  \<^verbatim>\<open>DefaultRetry()\<close> is six retries over the intervals 1s, 2s, ..., 32s within 60
  seconds, \<^verbatim>\<open>DefaultJSONFormat()\<close> is JSON lines.
\<close>

definition DefaultRetry :: Retry where
  "DefaultRetry = \<lparr>MaxRetryTimes = 6, BaseIntervalMs = 1000, MaxTotalTimeMs = 60000\<rparr>"

definition DefaultJSONFormat :: Format where
  "DefaultJSONFormat = JSONFormat JSONObjectLine"

definition flusher_config ::
  "('c, 'k) FlusherDoris \<Rightarrow> string \<Rightarrow> string \<Rightarrow> GroupCommitMode \<Rightarrow> Config" where
  "flusher_config f username password mode =
     \<lparr>Endpoints = (case FAddresses f of None \<Rightarrow> [] | Some a \<Rightarrow> a),
      User = username, Password = password, Database = FDatabase f, Table = FTable f,
      LabelPrefix = ''LoongCollector_doris_flusher'', CLabel = '''',
      CFormat = DefaultJSONFormat, CRetry = Some DefaultRetry,
      GroupCommit = mode, Options = LoadProperties f\<rparr>"

text \<open>
  \<open>initDorisClient\<close>; \<open>newLoadClient\<close> is the SDK's constructor \<^verbatim>\<open>load.NewLoadClient\<close>.
\<close>

definition initDorisClient ::
  "(Config \<Rightarrow> error + 'c) \<Rightarrow> ('c, 'k) FlusherDoris \<Rightarrow> error option \<times> ('c, 'k) FlusherDoris" where
  "initDorisClient newLoadClient f =
     (case GetUsernamePassword (FAuthentication f) of
        Inl err \<Rightarrow> (Some (Errorf (''failed to get authentication credentials: '' @ Error err)), f)
      | Inr (username, password) \<Rightarrow>
          (let (mode, warnings) = parseGroupCommitMode (FGroupCommit f);
               f1 = f\<lparr>flog := flog f @ warnings\<rparr>;
               config = flusher_config f1 username password mode
           in case newLoadClient config of
                Inl err \<Rightarrow> (Some (Errorf (''failed to create doris client: '' @ Error err)), f1)
              | Inr c \<Rightarrow>
                  (None, logger INFO ''Doris client initialized successfully''
                           (f1\<lparr>dorisClient := Some c\<rparr>))))"

text \<open>\<open>getConverter\<close>; \<open>newConverter\<close> is \<^verbatim>\<open>converter.NewConverter\<close>.\<close>

definition getConverter ::
  "(convertConfig \<Rightarrow> error + 'k) \<Rightarrow> ('c, 'k) FlusherDoris
     \<Rightarrow> (error + 'k) \<times> ('c, 'k) FlusherDoris" where
  "getConverter newConverter f =
     (newConverter (Convert f), logger DEBUG ''[ilogtail data convert config] Protocol'' f)"

definition startProgressLogging :: "('c, 'k) FlusherDoris \<Rightarrow> ('c, 'k) FlusherDoris" where
  "startProgressLogging f = f\<lparr>progressTicker := True\<rparr>"

definition set_defaults :: "('c, 'k) FlusherDoris \<Rightarrow> ('c, 'k) FlusherDoris" where
  "set_defaults f =
     (let f1 = (if Encoding (Convert f) = ''''
                then f\<lparr>Convert := (Convert f)\<lparr>Encoding := EncodingJSON\<rparr>\<rparr> else f)
      in (if Protocol (Convert f1) = ''''
          then f1\<lparr>Convert := (Convert f1)\<lparr>Protocol := ProtocolCustomSingle\<rparr>\<rparr> else f1))"

definition Init ::
  "(convertConfig \<Rightarrow> error + 'k) \<Rightarrow> (Config \<Rightarrow> error + 'c) \<Rightarrow> ('c, 'k) FlusherDoris
     \<Rightarrow> error option \<times> ('c, 'k) FlusherDoris" where
  "Init newConverter newLoadClient f =
     (case Validate f of
        (Some err, f1) \<Rightarrow> (Some err, logger WARNING ''init doris flusher fail, error'' f1)
      | (None, f1) \<Rightarrow>
          (case getConverter newConverter (set_defaults f1) of
             (Inl err, f2) \<Rightarrow>
               (Some err, logger WARNING ''init doris flusher converter fail, error'' f2)
           | (Inr convert, f2) \<Rightarrow>
               (case initDorisClient newLoadClient (f2\<lparr>converter := Some convert\<rparr>) of
                  (Some err, f3) \<Rightarrow> (Some err, logger WARNING ''init doris client fail, error'' f3)
                | (None, f3) \<Rightarrow>
                    (None, if LogProgressInterval f3 > 0 then startProgressLogging f3 else f3))))"

section \<open>Flush\<close>

text \<open>
  \<open>toByteStream\<close> is the converter's \<^verbatim>\<open>ToByteStream\<close>; \<open>load\<close> is the client's
  \<^verbatim>\<open>Load\<close>, which acts on the world outside (the server, the network) and returns
  either a transport error or a response. The result of \<open>Flush\<close> lists, in order, the
  buffers handed to \<open>load\<close> with what came back.
\<close>

definition join_logs :: "string list \<Rightarrow> string" where
  "join_logs serializedLogs = concat (map (\<lambda>l. l @ [CHR 0x0A]) serializedLogs)"

type_synonym sent = "(string \<times> (error + LoadResponse)) list"

fun flush_loop ::
  "('g \<Rightarrow> error + string list) \<Rightarrow> (string \<Rightarrow> 'w \<Rightarrow> (error + LoadResponse) \<times> 'w)
     \<Rightarrow> ('c, 'k) FlusherDoris \<Rightarrow> 'w \<Rightarrow> sent \<Rightarrow> 'g list
     \<Rightarrow> error option \<times> ('c, 'k) FlusherDoris \<times> 'w \<times> sent" where
  "flush_loop toByteStream load f w tr [] = (None, f, w, tr)"
| "flush_loop toByteStream load f w tr (logGroup # rest) =
     (let f1 = logger DEBUG ''[LogGroup] topic'' f in
      case toByteStream logGroup of
        Inl err \<Rightarrow>
          flush_loop toByteStream load
            (logger WARNING ''flush doris convert log fail, error'' f1) w tr rest
      | Inr serializedLogs \<Rightarrow>
          (let buffer = join_logs serializedLogs in
           if length buffer = 0 then
             flush_loop toByteStream load (logger DEBUG ''No logs to flush'' f1) w tr rest
           else
             (let f2 = logger DEBUG ''Loading data to Doris'' f1 in
              case load buffer w of
                (Inl err, w1) \<Rightarrow>
                  (Some (Errorf (''failed to load data to doris: '' @ Error err)),
                   logger WARNING ''flush doris load fail, error'' f2, w1, tr @ [(buffer, Inl err)])
              | (Inr response, w1) \<Rightarrow>
                  if RStatus response = SUCCESS then
                    flush_loop toByteStream load
                      ((logger INFO ''Doris load success'' f2)
                         \<lparr>stats := updateStatistics (LoadBytes (Resp response))
                                     (NumberLoadedRows (Resp response)) (stats f2)\<rparr>)
                      w1 (tr @ [(buffer, Inr response)]) rest
                  else
                    (Some (Errorf (''doris load failed: '' @ ErrorMessage response)),
                     logger WARNING ''doris load failed with status'' f2, w1,
                     tr @ [(buffer, Inr response)]))))"

definition Flush ::
  "('g \<Rightarrow> error + string list) \<Rightarrow> ('c \<Rightarrow> string \<Rightarrow> 'w \<Rightarrow> (error + LoadResponse) \<times> 'w)
     \<Rightarrow> ('c, 'k) FlusherDoris \<Rightarrow> 'w \<Rightarrow> 'g list
     \<Rightarrow> error option \<times> ('c, 'k) FlusherDoris \<times> 'w \<times> sent" where
  "Flush toByteStream load f w logGroupList =
     (case dorisClient f of
        None \<Rightarrow> (Some (Errorf ''doris client not initialized''), f, w, [])
      | Some c \<Rightarrow> flush_loop toByteStream (load c) f w [] logGroupList)"

text \<open>What the loop does with one group, read off the converter alone.\<close>

definition skipped :: "('g \<Rightarrow> error + string list) \<Rightarrow> 'g \<Rightarrow> bool" where
  "skipped toByteStream g =
     (case toByteStream g of Inl err \<Rightarrow> True | Inr ls \<Rightarrow> join_logs ls = [])"

definition buffer_of :: "('g \<Rightarrow> error + string list) \<Rightarrow> 'g \<Rightarrow> string" where
  "buffer_of toByteStream g = (case toByteStream g of Inl err \<Rightarrow> [] | Inr ls \<Rightarrow> join_logs ls)"

definition load_ok :: "(error + LoadResponse) \<Rightarrow> bool" where
  "load_ok r = (case r of Inl err \<Rightarrow> False | Inr response \<Rightarrow> RStatus response = SUCCESS)"

section \<open>Replayable request bodies\<close>

text \<open>
  The SDK's reader handling, as its reader analysis documents the current implementation
  (\<^verbatim>\<open>getBodyFunc\<close>). An \<^verbatim>\<open>io.Reader\<close> is the bytes behind it and a read position;
  \<open>seekable\<close> is the capability test \<^verbatim>\<open>reader.(io.Seeker)\<close>, and the two flags say
  whether \<^verbatim>\<open>Seek\<close> and \<^verbatim>\<open>Read\<close> return an error. \<open>drained\<close> counts how often the
  reader has been read to its end by \<^verbatim>\<open>buf.ReadFrom\<close>.
\<close>

record reader =
  content :: string
  offset :: nat
  seekable :: bool
  seek_fails :: bool
  read_fails :: bool
  drained :: nat

datatype strategy = SeekerStrategy | BufferStrategy string

text \<open>The body of one attempt: the caller's reader itself, or a new reader over the buffer.\<close>

datatype body = Original | Buffered string

definition makeGetBody :: "reader \<Rightarrow> error + (strategy \<times> reader)" where
  "makeGetBody r =
     (if seekable r then Inr (SeekerStrategy, r)
      else if read_fails r then Inl (Errorf ''failed to buffer reader content'')
      else Inr (BufferStrategy (drop (offset r) (content r)),
                r\<lparr>offset := length (content r), drained := drained r + 1\<rparr>))"

fun getBodyFunc :: "strategy \<Rightarrow> reader \<Rightarrow> error + (body \<times> reader)" where
  "getBodyFunc SeekerStrategy r =
     (if seek_fails r then Inl (Errorf ''failed to seek to start'')
      else Inr (Original, r\<lparr>offset := 0\<rparr>))"
| "getBodyFunc (BufferStrategy buf) r = Inr (Buffered buf, r)"

text \<open>The bytes a body yields when read to its end, and what reading \<open>n\<close> bytes of it does.\<close>

fun body_bytes :: "body \<Rightarrow> reader \<Rightarrow> string" where
  "body_bytes Original r = drop (offset r) (content r)"
| "body_bytes (Buffered buf) r = buf"

fun consume :: "nat \<Rightarrow> body \<Rightarrow> reader \<Rightarrow> reader" where
  "consume n Original r = r\<lparr>offset := min (offset r + n) (length (content r))\<rparr>"
| "consume n (Buffered buf) r = r"

text \<open>
  A run of attempts; attempt \<open>i\<close> reads \<open>ns ! i\<close> bytes of its body before it ends (a
  failed attempt may stop anywhere). The result lists the bytes each attempt was given.
\<close>

fun attempts :: "strategy \<Rightarrow> reader \<Rightarrow> nat list \<Rightarrow> error + (string list \<times> reader)" where
  "attempts st r [] = Inr ([], r)"
| "attempts st r (n # ns) =
     (case getBodyFunc st r of
        Inl err \<Rightarrow> Inl err
      | Inr (b, r1) \<Rightarrow>
          (case attempts st (consume n b r1) ns of
             Inl err \<Rightarrow> Inl err
           | Inr (bs, r2) \<Rightarrow> Inr (body_bytes b r1 # bs, r2)))"

section \<open>The ingestion client: labels, requests and the retry loop\<close>

text \<open>
  Everything the client takes from outside during one submission: the rendered
  millisecond timestamp and the random suffix of a synthesized label, the random endpoint
  choice of each attempt, the base64 encoder, and the network, which for the request of
  attempt \<open>k\<close> gives the time the request took (ms) and a transport error or the
  classified response.
\<close>

record Request =
  url :: string
  headers :: "string \<rightharpoonup> string"
  payload :: string

record outside =
  default_prefix :: string
  timestamp :: string
  random_suffix :: string
  choice :: "nat \<Rightarrow> nat"
  base64 :: "string \<Rightarrow> string"
  network :: "nat \<Rightarrow> Request \<Rightarrow> nat \<times> (error + LoadResponse)"

definition label_ignored_msg :: string where
  "label_ignored_msg = ''group commit is enabled: the configured label and label prefix are ignored''"

text \<open>
  Modelled from the spec: the Label Manager \<open>labelFor\<close> (the SDK's request code is not
  among the sources). With group commit on it returns nothing and records the warning;
  with group commit off it returns the configured label verbatim, or else
  \<open>prefix_timestamp_suffix\<close> with the fixed default prefix when none is configured.
\<close>

definition labelFor :: "outside \<Rightarrow> Config \<Rightarrow> string option \<times> logs" where
  "labelFor w cfg =
     (if GroupCommit cfg \<noteq> OFF then (None, [(WARNING, label_ignored_msg)])
      else if CLabel cfg \<noteq> '''' then (Some (CLabel cfg), [])
      else (Some ((if LabelPrefix cfg = '''' then default_prefix w else LabelPrefix cfg)
                  @ ''_'' @ timestamp w @ ''_'' @ random_suffix w), []))"

text \<open>
  Modelled from the spec: the Request Builder \<open>build\<close> (not among the sources). The
  protocol's own headers are basic authentication, the format headers, the group-commit
  directive and the label, when there is one. Header names do not distinguish letter
  case. A name that is one of the protocol's headers, or \<open>label\<close>, in any letter case
  belongs to the protocol: the request carries under it what the protocol wrote and
  nothing else, so that a caller option neither overrides a protocol header nor brings
  in a label that the protocol suppressed. Every other option of the caller becomes a
  header.
\<close>

fun format_headers :: "Format \<Rightarrow> (string \<times> string) list" where
  "format_headers (CSVFormat sep delim) =
     [(''column_separator'', sep), (''line_delimiter'', delim)]"
| "format_headers (JSONFormat JSONObjectLine) = [(''read_json_by_line'', ''true'')]"
| "format_headers (JSONFormat JSONArray) = [(''strip_outer_array'', ''true'')]"

fun group_commit_header :: "GroupCommitMode \<Rightarrow> string" where
  "group_commit_header SYNC = ''sync_mode''"
| "group_commit_header ASYNC = ''async_mode''"
| "group_commit_header OFF = ''off_mode''"

definition label_header :: "string option \<Rightarrow> (string \<times> string) list" where
  "label_header l = (case l of None \<Rightarrow> [] | Some v \<Rightarrow> [(''label'', v)])"

definition protocol_headers :: "outside \<Rightarrow> Config \<Rightarrow> string option \<Rightarrow> (string \<times> string) list" where
  "protocol_headers w cfg l =
     (''Authorization'', ''Basic '' @ base64 w (User cfg @ '':'' @ Password cfg))
       # format_headers (CFormat cfg)
       @ [(''group_commit'', group_commit_header (GroupCommit cfg))]
       @ label_header l"

definition protocol_controlled :: "(string \<times> string) list \<Rightarrow> string \<Rightarrow> bool" where
  "protocol_controlled hs name = (ToLower name \<in> set (''label'' # map (\<lambda>(n, v). ToLower n) hs))"

definition build :: "outside \<Rightarrow> Config \<Rightarrow> string option \<Rightarrow> string \<Rightarrow> string \<Rightarrow> Request" where
  "build w cfg l data endpoint =
     \<lparr>url = endpoint @ ''/'' @ Database cfg @ ''/'' @ Table cfg @ ''/_stream_load'',
      headers = (\<lambda>name. if protocol_controlled (protocol_headers w cfg l) name
                         then map_of (protocol_headers w cfg l) name
                         else Options cfg name),
      payload = data\<rparr>"

text \<open>
  Modelled from the spec: the endpoint of an attempt is a random choice among the
  configured addresses, made anew at every attempt. A configuration without an address
  (which the client's construction rules out) has no endpoint to choose.
\<close>

definition selectEndpoint :: "outside \<Rightarrow> Config \<Rightarrow> nat \<Rightarrow> string option" where
  "selectEndpoint w cfg k =
     (if Endpoints cfg = [] then None
      else Some (Endpoints cfg ! (choice w k mod length (Endpoints cfg))))"

text \<open>
  Modelled from the spec: the Retry Orchestrator (not among the sources). Attempt \<open>k\<close>
  (from 1) sends one request; a success ends the loop; after a failure the loop backs
  off while fewer than \<open>MaxRetryTimes\<close> retries have been made and the elapsed time is
  below \<open>MaxTotalTimeMs\<close>, sleeping \<open>min (base * 2 ^ (k - 1)) remaining\<close>; otherwise it
  ends with the last failure, the attempt count and the elapsed time. A policy of
  \<open>None\<close> never retries. \<open>MaxTotalTimeMs = 0\<close> is a policy without a time cap (the
  spec's first scenario; the SDK's examples leave the field out for it).
\<close>

datatype event = Attempt nat Request | Sleep nat nat nat | Logged log_level string

datatype load_error = NoEndpoint | Exhausted nat nat "error + LoadResponse"

definition within_budget :: "Retry \<Rightarrow> nat \<Rightarrow> nat \<Rightarrow> bool" where
  "within_budget p k elapsed =
     (k - 1 < MaxRetryTimes p \<and> (MaxTotalTimeMs p = 0 \<or> elapsed < MaxTotalTimeMs p))"

definition backoff :: "Retry \<Rightarrow> nat \<Rightarrow> nat \<Rightarrow> nat" where
  "backoff p k elapsed =
     (if MaxTotalTimeMs p = 0 then BaseIntervalMs p * 2 ^ (k - 1)
      else min (BaseIntervalMs p * 2 ^ (k - 1)) (MaxTotalTimeMs p - elapsed))"

definition retries_left :: "Config \<Rightarrow> nat \<Rightarrow> nat" where
  "retries_left cfg k = (case CRetry cfg of None \<Rightarrow> 0 | Some p \<Rightarrow> Suc (MaxRetryTimes p) - k)"

function retry_loop ::
  "outside \<Rightarrow> Config \<Rightarrow> string option \<Rightarrow> string \<Rightarrow> nat \<Rightarrow> nat \<Rightarrow> event list
     \<Rightarrow> (load_error + LoadResponse) \<times> event list \<times> nat" where
  "retry_loop w cfg l data k elapsed tr =
     (case selectEndpoint w cfg k of
        None \<Rightarrow> (Inl NoEndpoint, tr, elapsed)
      | Some endpoint \<Rightarrow>
          (let req = build w cfg l data endpoint;
               res = snd (network w k req);
               e1 = elapsed + fst (network w k req);
               tr1 = tr @ [Attempt k req]
           in if load_ok res then (Inr (projr res), tr1, e1)
              else if (case CRetry cfg of None \<Rightarrow> False | Some p \<Rightarrow> within_budget p k e1) then
                retry_loop w cfg l data (Suc k) (e1 + backoff (the (CRetry cfg)) k e1)
                  (tr1 @ [Sleep k (backoff (the (CRetry cfg)) k e1) e1])
              else (Inl (Exhausted k e1 res), tr1, e1)))"
  by pat_completeness auto
termination
  by (relation "measure (\<lambda>(w, cfg, l, data, k, elapsed, tr). retries_left cfg k)")
     (auto simp: retries_left_def within_budget_def split: option.splits)

text \<open>
  Readings of a trace: its requests, the time slept, and the log entries recorded.
\<close>

fun requests :: "event list \<Rightarrow> Request list" where
  "requests [] = []"
| "requests (Attempt k req # tr) = req # requests tr"
| "requests (Sleep k s e # tr) = requests tr"
| "requests (Logged lv m # tr) = requests tr"

fun sleeps :: "event list \<Rightarrow> nat list" where
  "sleeps [] = []"
| "sleeps (Attempt k req # tr) = sleeps tr"
| "sleeps (Sleep k s e # tr) = s # sleeps tr"
| "sleeps (Logged lv m # tr) = sleeps tr"

fun logged :: "event list \<Rightarrow> logs" where
  "logged [] = []"
| "logged (Attempt k req # tr) = logged tr"
| "logged (Sleep k s e # tr) = logged tr"
| "logged (Logged lv m # tr) = (lv, m) # logged tr"

fun sleep_ok :: "Retry \<Rightarrow> event \<Rightarrow> bool" where
  "sleep_ok p (Attempt k req) = True"
| "sleep_ok p (Sleep k s e) =
     (s = min (BaseIntervalMs p * 2 ^ (k - 1)) (MaxTotalTimeMs p - e))"
| "sleep_ok p (Logged lv m) = True"

text \<open>
  Modelled from the spec: the submission entry point \<open>Load\<close> (not among the
  sources). The label is computed once, before the first attempt; what the Label Manager
  logs opens the trace of the submission, and every attempt is built with that label. The
  result carries the events of the submission and the log entries recorded in it.
\<close>

definition Load ::
  "outside \<Rightarrow> Config \<Rightarrow> string \<Rightarrow> (load_error + LoadResponse) \<times> event list \<times> logs" where
  "Load w cfg data =
     (let (l, warnings) = labelFor w cfg;
          (res, tr, elapsed) =
             retry_loop w cfg l data 1 0 (map (\<lambda>(lv, m). Logged lv m) warnings)
      in (res, tr, logged tr))"

section \<open>Notions used in the statements\<close>

text \<open>The buffers a run of \<open>Flush\<close> has to send: those of the groups that are not skipped.\<close>

definition sent_buffers :: "('g \<Rightarrow> error + string list) \<Rightarrow> 'g list \<Rightarrow> string list" where
  "sent_buffers tb gs = map (buffer_of tb) (filter (\<lambda>g. \<not> skipped tb g) gs)"

text \<open>
  The outcome of the loop over the groups, in terms of what was sent: without an error,
  every buffer went out and loaded; with an error, the groups split at the one whose load
  failed, which is the last thing sent.
\<close>

definition flush_post ::
  "('g \<Rightarrow> error + string list) \<Rightarrow> 'g list \<Rightarrow> error option \<Rightarrow> sent \<Rightarrow> bool" where
  "flush_post tb gs r new =
     (if r = None then map fst new = sent_buffers tb gs \<and> (\<forall>x \<in> set new. load_ok (snd x))
      else (\<exists>pre g post. gs = pre @ g # post \<and> \<not> skipped tb g \<and>
              map fst new = sent_buffers tb pre @ [buffer_of tb g] \<and>
              (\<forall>x \<in> set (butlast new). load_ok (snd x)) \<and> new \<noteq> [] \<and>
              \<not> load_ok (snd (last new))))"

text \<open>The statistics after the successful loads of a list of sent buffers.\<close>

definition account :: "statistics \<Rightarrow> sent \<Rightarrow> statistics" where
  "account s tr =
     foldl (\<lambda>s (buffer, r).
              case r of
                Inl err \<Rightarrow> s
              | Inr response \<Rightarrow>
                  if RStatus response = SUCCESS
                  then updateStatistics (LoadBytes (Resp response))
                         (NumberLoadedRows (Resp response)) s
                  else s) s tr"

definition credentials_missing :: "('c, 'k) FlusherDoris \<Rightarrow> bool" where
  "credentials_missing f =
     (case PlainText (FAuthentication f) of
        None \<Rightarrow> True
      | Some p \<Rightarrow> Username p = '''' \<or> PPassword p = '''')"

section \<open>Example inputs\<close>

text \<open>A flusher configured as in the unit tests, with and without a user name.\<close>

definition test_flusher :: "string \<Rightarrow> (unit, unit) FlusherDoris" where
  "test_flusher user =
     (NewFlusherDoris 0)
       \<lparr>FAddresses := Some [''127.0.0.1:8030''], FDatabase := ''test_db'',
        FAuthentication := \<lparr>PlainText = Some \<lparr>Username = user, PPassword = ''password'',
                                                PDatabase = ''''\<rparr>\<rparr>,
        FTable := ''test_table''\<rparr>"

text \<open>
  A converter that fails on group 0, yields nothing for group 1 and one row otherwise; a
  server that accepts every load but its second one (the world counts the loads).
\<close>

definition test_response :: "64 word \<Rightarrow> 64 word \<Rightarrow> LoadResponse" where
  "test_response bytes rows =
     \<lparr>RStatus = SUCCESS,
      Resp = \<lparr>TxnID = 1, Label = '''', Status = ''Success'', TwoPhaseCommit = '''',
               ExistingJobStatus = '''', Message = ''OK'', NumberTotalRows = rows,
               NumberLoadedRows = rows, NumberFilteredRows = 0, NumberUnselectedRows = 0,
               LoadBytes = bytes, LoadTimeMs = 0, BeginTxnTimeMs = 0, StreamLoadPutTimeMs = 0,
               ReadDataTimeMs = 0, WriteDataTimeMs = 0, CommitAndPublishTimeMs = 0,
               ErrorURL = ''''\<rparr>,
      ErrorMessage = ''''\<rparr>"

definition test_toByteStream :: "nat \<Rightarrow> error + string list" where
  "test_toByteStream g =
     (if g = 0 then Inl (Errorf ''convert failed'') else if g = 1 then Inr [] else Inr [''row''])"

definition test_load :: "unit \<Rightarrow> string \<Rightarrow> nat \<Rightarrow> (error + LoadResponse) \<times> nat" where
  "test_load c buffer w =
     (if w = 1 then Inl (Errorf ''timeout'') else Inr (test_response 4 1), Suc w)"

text \<open>
  A client configuration and an outside in which every request fails at once, as in the
  spec's scenarios.
\<close>

definition test_config :: "Retry option \<Rightarrow> GroupCommitMode \<Rightarrow> Config" where
  "test_config r m =
     \<lparr>Endpoints = [''http://fe1:8030'', ''http://fe2:8030''], User = ''root'',
      Password = ''password'', Database = ''test_db'', Table = ''test_table'',
      LabelPrefix = ''prefix'', CLabel = ''mylabel'', CFormat = DefaultJSONFormat,
      CRetry = r, GroupCommit = m, Options = [''strict_mode'' \<mapsto> ''true'']\<rparr>"

definition all_fail :: outside where
  "all_fail =
     \<lparr>default_prefix = ''doris'', timestamp = ''1700000000000'', random_suffix = ''a1b2'',
      choice = (\<lambda>k. k), base64 = (\<lambda>s. s),
      network = (\<lambda>k req. (0, Inl (Errorf ''connection refused'')))\<rparr>"

definition test_reader :: "bool \<Rightarrow> reader" where
  "test_reader s =
     \<lparr>content = ''a,b'', offset = 1, seekable = s, seek_fails = False, read_fails = False,
      drained = 0\<rparr>"

text \<open>
  The retry policies of the spec's first two scenarios: three retries from one second
  without a time cap, and ten retries from one second within five seconds.
\<close>

definition scenario1 :: Retry where
  "scenario1 = \<lparr>MaxRetryTimes = 3, BaseIntervalMs = 1000, MaxTotalTimeMs = 0\<rparr>"

definition scenario2 :: Retry where
  "scenario2 = \<lparr>MaxRetryTimes = 10, BaseIntervalMs = 1000, MaxTotalTimeMs = 5000\<rparr>"

section \<open>Group-commit mode parsing\<close>

lemma ToLower_Nil: "ToLower m = [] \<longleftrightarrow> m = []"
  by (simp add: ToLower_def)

text \<open>
  C9. \<open>parseGroupCommitMode\<close> is a total function of the lower-cased input: \<open>sync\<close>
  gives SYNC, \<open>async\<close> gives ASYNC, \<open>off\<close> and the empty string give OFF, all
  without a warning; every other input gives OFF and logs one warning naming the input.
  Inputs that agree after lower-casing get the same mode.
\<close>

theorem parseGroupCommitMode_cases:
  "(ToLower m = ''sync'' \<longrightarrow> parseGroupCommitMode m = (SYNC, [])) \<and>
   (ToLower m = ''async'' \<longrightarrow> parseGroupCommitMode m = (ASYNC, [])) \<and>
   (ToLower m = ''off'' \<or> m = '''' \<longrightarrow> parseGroupCommitMode m = (OFF, [])) \<and>
   (ToLower m \<noteq> ''sync'' \<and> ToLower m \<noteq> ''async'' \<and> ToLower m \<noteq> ''off'' \<and> m \<noteq> '''' \<longrightarrow>
      parseGroupCommitMode m = (OFF, [(WARNING, unknown_mode_msg m)])) \<and>
   (ToLower m = ToLower m' \<longrightarrow> fst (parseGroupCommitMode m) = fst (parseGroupCommitMode m'))"
  by (auto simp: parseGroupCommitMode_def Let_def ToLower_Nil ToLower_def)

theorem parseGroupCommitMode_cases_witness:
  "parseGroupCommitMode ''SyNc'' = (SYNC, []) \<and>
   parseGroupCommitMode ''ASYNC'' = (ASYNC, []) \<and>
   parseGroupCommitMode ''Off'' = (OFF, []) \<and>
   parseGroupCommitMode '''' = (OFF, []) \<and>
   parseGroupCommitMode ''batch'' = (OFF, [(WARNING, unknown_mode_msg ''batch'')]) \<and>
   fst (parseGroupCommitMode ''sYnC'') = fst (parseGroupCommitMode ''SYNC'')"
proof -
  have h1: "ToLower ''SyNc'' = ''sync''" by code_simp
  have h2: "ToLower ''ASYNC'' = ''async''" by code_simp
  have h3: "ToLower ''Off'' = ''off''" by code_simp
  have h4: "ToLower ''batch'' = ''batch''" by code_simp
  have h5: "ToLower ''sYnC'' = ToLower ''SYNC''" by code_simp
  show ?thesis
    using parseGroupCommitMode_cases [of "''SyNc''" "''''"]
      parseGroupCommitMode_cases [of "''ASYNC''" "''''"]
      parseGroupCommitMode_cases [of "''Off''" "''''"]
      parseGroupCommitMode_cases [of "''''" "''''"]
      parseGroupCommitMode_cases [of "''batch''" "''''"]
      parseGroupCommitMode_cases [of "''sYnC''" "''SYNC''"]
      h1 h2 h3 h4 h5
    by simp
qed

section \<open>The shared HTTP client\<close>

text \<open>
  C8. The client that \<open>buildHttpClient\<close> allocates has 30 idle connections per host, 50
  connections per host, 50 idle connections in all, and a timeout of 120 seconds (as
  nanoseconds, without wrapping in 64 bits).
\<close>

theorem buildHttpClient_bounds:
  "(case buildHttpClient st of
      (a, st') \<Rightarrow>
        a = length (heap st) \<and> heap st' = heap st @ [buildHttpClient_value] \<and>
        MaxIdleConnsPerHost (CTransport (heap st' ! a)) = 30 \<and>
        MaxConnsPerHost (CTransport (heap st' ! a)) = 50 \<and>
        MaxIdleConns (CTransport (heap st' ! a)) = 50 \<and>
        Timeout (heap st' ! a) = 120 * Second \<and>
        sint (Timeout (heap st' ! a)) = 120 * 1000000000)"
  by (simp add: buildHttpClient_def buildHttpClient_value_def Second_def)

lemma GetHttpClient_once:
  "once st \<Longrightarrow> GetHttpClient st = (client st, st)"
  by (simp add: GetHttpClient_def)

lemma GetHttpClient_first:
  "\<not> once st \<Longrightarrow> GetHttpClient st =
     (Some (length (heap st)),
      st\<lparr>heap := heap st @ [buildHttpClient_value], client := Some (length (heap st)),
         once := True\<rparr>)"
  by (simp add: GetHttpClient_def buildHttpClient_def)

lemma GetHttpClient_calls_once:
  "once st \<Longrightarrow> GetHttpClient_calls n st = (replicate n (client st), st)"
  by (induction n) (simp_all add: GetHttpClient_once)

text \<open>
  C5. In a process that starts with the package state unset, any number of calls of
  \<open>GetHttpClient\<close> return one and the same pointer, and the heap holds at most one
  client: \<open>buildHttpClient\<close> ran once, on the first call, and never again.
\<close>

theorem GetHttpClient_singleton:
  "GetHttpClient_calls n util_init = (rs, st) \<Longrightarrow>
     (\<forall>r \<in> set rs. r = Some 0) \<and> length rs = n \<and> length (heap st) \<le> 1 \<and>
     (0 < n \<longrightarrow> heap st = [buildHttpClient_value] \<and> client st = Some 0)"
proof (cases n)
  case 0
  assume "GetHttpClient_calls n util_init = (rs, st)"
  with 0 show ?thesis by (auto simp: util_init_def)
next
  case (Suc m)
  assume a: "GetHttpClient_calls n util_init = (rs, st)"
  let ?s1 = "util_init\<lparr>heap := heap util_init @ [buildHttpClient_value],
               client := Some (length (heap util_init)), once := True\<rparr>"
  have "GetHttpClient util_init = (Some 0, ?s1)"
    using GetHttpClient_first [of util_init] by (simp add: util_init_def)
  moreover have "GetHttpClient_calls m ?s1 = (replicate m (client ?s1), ?s1)"
    by (rule GetHttpClient_calls_once) simp
  ultimately have "rs = Some 0 # replicate m (Some 0)" "st = ?s1"
    using a Suc by (simp_all add: util_init_def)
  then show ?thesis using Suc by (auto simp: util_init_def)
qed

theorem GetHttpClient_singleton_witness:
  "GetHttpClient_calls 3 util_init =
     ([Some 0, Some 0, Some 0], \<lparr>client = Some 0, once = True, heap = [buildHttpClient_value]\<rparr>)
   \<and> length [buildHttpClient_value] \<le> 1"
proof -
  have e: "GetHttpClient_calls 3 util_init =
     ([Some 0, Some 0, Some 0], \<lparr>client = Some 0, once = True, heap = [buildHttpClient_value]\<rparr>)"
    by (simp add: numeral_3_eq_3 GetHttpClient_def buildHttpClient_def util_init_def)
  from GetHttpClient_singleton [OF e] e show ?thesis by simp
qed

section \<open>Validation and initialization\<close>

lemma GetUsernamePassword_missing:
  "credentials_missing f \<Longrightarrow> \<exists>e. GetUsernamePassword (FAuthentication f) = Inl e"
  by (auto simp: credentials_missing_def GetUsernamePassword_def split: option.splits)

lemma Validate_iff:
  "fst (Validate f) \<noteq> None \<longleftrightarrow> (FAddresses f = None \<or> FAddresses f = Some [] \<or> FTable f = '''')"
  by (auto simp: Validate_def Let_def split: option.splits)

lemma Validate_snd_auth:
  "FAuthentication (snd (Validate f)) = FAuthentication f \<and> dorisClient (snd (Validate f)) = dorisClient f"
  by (simp add: Validate_def Let_def logger_def)

lemma set_defaults_auth:
  "FAuthentication (set_defaults f) = FAuthentication f \<and> dorisClient (set_defaults f) = dorisClient f"
  by (simp add: set_defaults_def Let_def)

lemma initDorisClient_missing:
  "credentials_missing f \<Longrightarrow>
     \<exists>e. initDorisClient nl f = (Some (Errorf (''failed to get authentication credentials: '' @ Error e)), f)
        \<and> GetUsernamePassword (FAuthentication f) = Inl e"
  using GetUsernamePassword_missing [of f] by (auto simp: initDorisClient_def)

lemma credentials_missing_cong:
  "FAuthentication g = FAuthentication f \<Longrightarrow> credentials_missing g = credentials_missing f"
  by (simp add: credentials_missing_def)

lemma Init_invalid:
  "Validate f = (Some e, f1) \<Longrightarrow>
     Init nc nl f = (Some e, logger WARNING ''init doris flusher fail, error'' f1)"
  by (simp add: Init_def)

lemma Init_missing:
  assumes "credentials_missing f"
  shows "fst (Init nc nl f) \<noteq> None \<and> dorisClient (snd (Init nc nl f)) = dorisClient f
         \<and> Init nc nl f = Init nc nl' f"
proof (cases "Validate f")
  case (Pair r f1)
  show ?thesis
  proof (cases r)
    case (Some e)
    with Pair have "Init nc nl f = (Some e, logger WARNING ''init doris flusher fail, error'' f1)"
      "Init nc nl' f = (Some e, logger WARNING ''init doris flusher fail, error'' f1)"
      by (simp_all add: Init_invalid)
    moreover have "dorisClient f1 = dorisClient f" using Validate_snd_auth [of f] Pair by simp
    ultimately show ?thesis by (simp add: logger_def)
  next
    case None
    have f1: "f1 = f" using Pair None by (auto simp: Validate_def Let_def split: if_splits)
    obtain c f2 where gc: "getConverter nc (set_defaults f) = (c, f2)" by (cases "getConverter nc (set_defaults f)")
    have a2: "FAuthentication f2 = FAuthentication f" "dorisClient f2 = dorisClient f"
      using gc set_defaults_auth [of f] by (auto simp: getConverter_def logger_def)
    show ?thesis
    proof (cases c)
      case (Inl err)
      then show ?thesis using Pair None f1 gc a2 by (simp add: Init_def logger_def)
    next
      case (Inr k)
      let ?g = "f2\<lparr>converter := Some k\<rparr>"
      have "credentials_missing ?g" using assms a2 by (simp add: credentials_missing_def)
      from initDorisClient_missing [OF this, of nl] initDorisClient_missing [OF this, of nl']
      show ?thesis using Pair None f1 gc a2 Inr by (auto simp: Init_def logger_def)
    qed
  qed
qed

text \<open>
  C6. \<open>Validate\<close> returns an error exactly when the address list is nil or empty or the
  table name is empty. When it does, \<open>Init\<close> returns that very error, creates neither
  converter nor client, and consults neither constructor. When the plaintext credentials
  are missing (no plaintext block, or an empty user name or password), \<open>Init\<close> returns
  an error, leaves the client pointer as it was and does not depend on the client
  constructor: no client is created. \<open>Init\<close> has no loop; an error ends it.
\<close>

theorem config_errors_fail_fast:
  "(fst (Validate f) \<noteq> None \<longleftrightarrow>
      (FAddresses f = None \<or> FAddresses f = Some [] \<or> FTable f = '''')) \<and>
   (fst (Validate f) \<noteq> None \<longrightarrow>
      fst (Init nc nl f) = fst (Validate f) \<and>
      dorisClient (snd (Init nc nl f)) = dorisClient f \<and>
      converter (snd (Init nc nl f)) = converter f \<and>
      Init nc nl f = Init nc' nl' f) \<and>
   (credentials_missing f \<longrightarrow>
      fst (Init nc nl f) \<noteq> None \<and>
      dorisClient (snd (Init nc nl f)) = dorisClient f \<and>
      Init nc nl f = Init nc nl' f)"
proof (intro conjI impI)
  show "fst (Validate f) \<noteq> None \<longleftrightarrow>
      (FAddresses f = None \<or> FAddresses f = Some [] \<or> FTable f = '''')"
    by (rule Validate_iff)
next
  assume v: "fst (Validate f) \<noteq> None"
  then obtain e f1 where vf: "Validate f = (Some e, f1)"
    by (cases "Validate f") auto
  have k: "dorisClient f1 = dorisClient f" "converter f1 = converter f"
    using vf by (auto simp: Validate_def Let_def logger_def split: if_splits)
  show "fst (Init nc nl f) = fst (Validate f)"
    using vf by (simp add: Init_invalid)
  show "dorisClient (snd (Init nc nl f)) = dorisClient f"
    using vf k by (simp add: Init_invalid logger_def)
  show "converter (snd (Init nc nl f)) = converter f"
    using vf k by (simp add: Init_invalid logger_def)
  show "Init nc nl f = Init nc' nl' f"
    using vf by (simp add: Init_invalid)
next
  assume m: "credentials_missing f"
  have x: "fst (Init nc nl f) \<noteq> None \<and> dorisClient (snd (Init nc nl f)) = dorisClient f
           \<and> Init nc nl f = Init nc nl' f"
    by (rule Init_missing [OF m])
  show "fst (Init nc nl f) \<noteq> None" using x by blast
  show "dorisClient (snd (Init nc nl f)) = dorisClient f" using x by blast
  show "Init nc nl f = Init nc nl' f" using x by blast
qed

theorem config_errors_fail_fast_witness:
  "fst (Validate (NewFlusherDoris 0 :: (unit, unit) FlusherDoris)) \<noteq> None \<and>
   fst (Init (\<lambda>c. Inr ()) (\<lambda>c. Inr ()) (NewFlusherDoris 0 :: (unit, unit) FlusherDoris))
     = Some (Errorf ''doris addrs is nil'') \<and>
   fst (Validate (test_flusher '''')) = None \<and>
   credentials_missing (test_flusher '''') \<and>
   fst (Init (\<lambda>c. Inr ()) (\<lambda>c. Inr ()) (test_flusher '''')) \<noteq> None \<and>
   dorisClient (snd (Init (\<lambda>c. Inr ()) (\<lambda>c. Inr ()) (test_flusher ''''))) = None"
proof -
  have v: "fst (Validate (NewFlusherDoris 0 :: (unit, unit) FlusherDoris))
             = Some (Errorf ''doris addrs is nil'')"
    by (simp add: Validate_def NewFlusherDoris_def Let_def)
  have m: "credentials_missing (test_flusher '''')"
    by (simp add: credentials_missing_def test_flusher_def NewFlusherDoris_def)
  have a: "FAddresses (test_flusher '''') = Some [''127.0.0.1:8030'']"
    "FTable (test_flusher '''') = ''test_table''" "dorisClient (test_flusher '''') = None"
    by (simp_all add: test_flusher_def NewFlusherDoris_def)
  from config_errors_fail_fast
         [of "NewFlusherDoris 0 :: (unit, unit) FlusherDoris" "\<lambda>c. Inr ()" "\<lambda>c. Inr ()"
             "\<lambda>c. Inr ()" "\<lambda>c. Inr ()"]
       config_errors_fail_fast
         [of "test_flusher ''''" "\<lambda>c. Inr ()" "\<lambda>c. Inr ()" "\<lambda>c. Inr ()" "\<lambda>c. Inr ()"]
       v m a
  show ?thesis by simp
qed

section \<open>Flush\<close>

lemma flush_post_NoneI:
  "map fst new = sent_buffers tb gs \<Longrightarrow> (\<forall>x \<in> set new. load_ok (snd x)) \<Longrightarrow>
     flush_post tb gs None new"
  by (simp add: flush_post_def)

lemma flush_post_SomeI:
  "gs = pre @ g # post \<Longrightarrow> \<not> skipped tb g \<Longrightarrow>
   map fst new = sent_buffers tb pre @ [buffer_of tb g] \<Longrightarrow>
   (\<forall>x \<in> set (butlast new). load_ok (snd x)) \<Longrightarrow> new \<noteq> [] \<Longrightarrow> \<not> load_ok (snd (last new)) \<Longrightarrow>
     flush_post tb gs (Some e) new"
  unfolding flush_post_def by (simp only: option.simps if_False) blast

lemma flush_post_SomeE:
  assumes "flush_post tb gs (Some e) new"
  obtains pre g post where "gs = pre @ g # post" "\<not> skipped tb g"
    "map fst new = sent_buffers tb pre @ [buffer_of tb g]"
    "\<forall>x \<in> set (butlast new). load_ok (snd x)" "new \<noteq> []" "\<not> load_ok (snd (last new))"
  using assms unfolding flush_post_def by (simp only: option.simps if_False) blast

lemma flush_post_skip:
  assumes sk: "skipped tb g" and p: "flush_post tb gs r new"
  shows "flush_post tb (g # gs) r new"
proof (cases r)
  case None
  with p sk show ?thesis by (simp add: flush_post_def sent_buffers_def)
next
  case (Some e)
  from p [unfolded Some] obtain pre g' post where h: "gs = pre @ g' # post" "\<not> skipped tb g'"
    "map fst new = sent_buffers tb pre @ [buffer_of tb g']"
    "\<forall>x \<in> set (butlast new). load_ok (snd x)" "new \<noteq> []" "\<not> load_ok (snd (last new))"
    by (rule flush_post_SomeE)
  have 1: "g # gs = (g # pre) @ g' # post" using h(1) by simp
  have 2: "map fst new = sent_buffers tb (g # pre) @ [buffer_of tb g']"
    using h(3) sk by (simp add: sent_buffers_def)
  show ?thesis unfolding Some by (rule flush_post_SomeI [OF 1 h(2) 2 h(4) h(5) h(6)])
qed

lemma flush_post_ok:
  assumes nsk: "\<not> skipped tb g" and ok: "load_ok res" and p: "flush_post tb gs r new"
  shows "flush_post tb (g # gs) r ((buffer_of tb g, res) # new)"
proof (cases r)
  case None
  with p nsk ok show ?thesis by (simp add: flush_post_def sent_buffers_def)
next
  case (Some e)
  from p [unfolded Some] obtain pre g' post where h: "gs = pre @ g' # post" "\<not> skipped tb g'"
    "map fst new = sent_buffers tb pre @ [buffer_of tb g']"
    "\<forall>x \<in> set (butlast new). load_ok (snd x)" "new \<noteq> []" "\<not> load_ok (snd (last new))"
    by (rule flush_post_SomeE)
  let ?new = "(buffer_of tb g, res) # new"
  have 1: "g # gs = (g # pre) @ g' # post" using h(1) by simp
  have 2: "map fst ?new = sent_buffers tb (g # pre) @ [buffer_of tb g']"
    using h(3) nsk by (simp add: sent_buffers_def)
  have 3: "\<forall>x \<in> set (butlast ?new). load_ok (snd x)" using h(4,5) ok by simp
  have 4: "?new \<noteq> []" by simp
  have 5: "\<not> load_ok (snd (last ?new))" using h(5,6) by simp
  show ?thesis unfolding Some by (rule flush_post_SomeI [OF 1 h(2) 2 3 4 5])
qed

lemma flush_post_fail:
  "\<not> skipped tb g \<Longrightarrow> \<not> load_ok res \<Longrightarrow> flush_post tb (g # gs) (Some e) [(buffer_of tb g, res)]"
  by (rule flush_post_SomeI [of _ "[]" g gs]) (simp_all add: sent_buffers_def)

lemma flush_loop_post:
  "flush_loop tb ld f w tr gs = (r, f', w', tr') \<Longrightarrow>
     \<exists>new. tr' = tr @ new \<and> flush_post tb gs r new \<and> stats f' = account (stats f) new"
proof (induction gs arbitrary: f w tr)
  case Nil
  then show ?case by (simp add: flush_post_def sent_buffers_def account_def)
next
  case (Cons g gs)
  show ?case
  proof (cases "tb g")
    case (Inl err)
    then have sk: "skipped tb g" by (simp add: skipped_def)
    from Cons.prems Inl obtain new where
      "tr' = tr @ new" "flush_post tb gs r new"
      "stats f' = account (stats (logger WARNING ''flush doris convert log fail, error'' (logger DEBUG ''[LogGroup] topic'' f))) new"
      using Cons.IH by (fastforce simp: Let_def)
    then show ?thesis using flush_post_skip [OF sk] by (auto simp: logger_def)
  next
    case (Inr ls)
    show ?thesis
    proof (cases "join_logs ls = []")
      case True
      then have sk: "skipped tb g" using Inr by (simp add: skipped_def)
      from Cons.prems Inr True obtain new where
        "tr' = tr @ new" "flush_post tb gs r new"
        "stats f' = account (stats (logger DEBUG ''No logs to flush'' (logger DEBUG ''[LogGroup] topic'' f))) new"
        using Cons.IH by (fastforce simp: Let_def)
      then show ?thesis using flush_post_skip [OF sk] by (auto simp: logger_def)
    next
      case False
      then have nsk: "\<not> skipped tb g" and bo: "buffer_of tb g = join_logs ls"
        using Inr by (simp_all add: skipped_def buffer_of_def)
      obtain res w1 where ld: "ld (join_logs ls) w = (res, w1)" by (cases "ld (join_logs ls) w")
      show ?thesis
      proof (cases "load_ok res")
        case True
        then obtain response where res: "res = Inr response" "RStatus response = SUCCESS"
          by (auto simp: load_ok_def split: sum.splits)
        let ?f2 = "(logger INFO ''Doris load success'' (logger DEBUG ''Loading data to Doris'' (logger DEBUG ''[LogGroup] topic'' f)))
                     \<lparr>stats := updateStatistics (LoadBytes (Resp response)) (NumberLoadedRows (Resp response))
                        (stats (logger DEBUG ''Loading data to Doris'' (logger DEBUG ''[LogGroup] topic'' f)))\<rparr>"
        from Cons.prems Inr False ld res
        have "flush_loop tb ld ?f2 w1 (tr @ [(join_logs ls, Inr response)]) gs = (r, f', w', tr')"
          by (simp add: Let_def)
        from Cons.IH [OF this] obtain new where
          n: "tr' = (tr @ [(join_logs ls, Inr response)]) @ new" "flush_post tb gs r new"
          "stats f' = account (stats ?f2) new" by blast
        have "flush_post tb (g # gs) r ((buffer_of tb g, res) # new)"
          by (rule flush_post_ok [OF nsk True n(2)])
        moreover have "stats f' = account (stats f) ((buffer_of tb g, res) # new)"
          using n(3) res by (simp add: account_def logger_def)
        ultimately show ?thesis using n(1) bo res by auto
      next
        case False
        from Cons.prems Inr \<open>join_logs ls \<noteq> []\<close> ld False
        have "tr' = tr @ [(join_logs ls, res)] \<and> r \<noteq> None \<and> stats f' = stats f"
          by (auto simp: Let_def load_ok_def logger_def split: sum.splits if_splits)
        moreover have "account (stats f) [(join_logs ls, res)] = stats f"
          using False by (auto simp: account_def load_ok_def split: sum.splits)
        ultimately show ?thesis using flush_post_fail [OF nsk False, of gs] bo by auto
      qed
    qed
  qed
qed

text \<open>
  C10. Without a client \<open>Flush\<close> returns the error at once: nothing is sent, and neither
  the flusher nor the world changes. With a client, a run that returns no error has sent
  the buffer of every group that is not skipped, in order, and each of them loaded with
  SUCCESS. A run that returns an error stopped at a group that is not skipped: the buffers
  of the groups before it were sent and loaded with SUCCESS, its own buffer is the last one
  sent, its load came back as a transport error or without SUCCESS, and nothing of the
  groups after it was sent. A group is skipped when its serialization fails or yields an
  empty buffer.
\<close>

theorem Flush_outcomes:
  "Flush tb ld f w gs = (r, f', w', tr) \<Longrightarrow>
     (dorisClient f = None \<longrightarrow>
        r = Some (Errorf ''doris client not initialized'') \<and> tr = [] \<and> f' = f \<and> w' = w) \<and>
     (dorisClient f \<noteq> None \<and> r = None \<longrightarrow>
        map fst tr = sent_buffers tb gs \<and> (\<forall>x \<in> set tr. load_ok (snd x))) \<and>
     (dorisClient f \<noteq> None \<and> r \<noteq> None \<longrightarrow>
        (\<exists>pre g post. gs = pre @ g # post \<and> \<not> skipped tb g \<and>
           map fst tr = sent_buffers tb pre @ [buffer_of tb g] \<and>
           (\<forall>x \<in> set (butlast tr). load_ok (snd x)) \<and> tr \<noteq> [] \<and>
           \<not> load_ok (snd (last tr))))"
proof (cases "dorisClient f")
  case None
  assume "Flush tb ld f w gs = (r, f', w', tr)"
  with None show ?thesis by (auto simp: Flush_def)
next
  case (Some c)
  assume "Flush tb ld f w gs = (r, f', w', tr)"
  with Some have "flush_loop tb (ld c) f w [] gs = (r, f', w', tr)"
    by (simp add: Flush_def)
  from flush_loop_post [OF this] have p: "flush_post tb gs r tr" by simp
  show ?thesis
  proof (cases r)
    case None
    with p Some show ?thesis by (simp add: flush_post_def)
  next
    case (Some e)
    from p [unfolded Some] obtain pre g post where "gs = pre @ g # post" "\<not> skipped tb g"
      "map fst tr = sent_buffers tb pre @ [buffer_of tb g]"
      "\<forall>x \<in> set (butlast tr). load_ok (snd x)" "tr \<noteq> []" "\<not> load_ok (snd (last tr))"
      by (rule flush_post_SomeE)
    then have "\<exists>pre g post. gs = pre @ g # post \<and> \<not> skipped tb g \<and>
           map fst tr = sent_buffers tb pre @ [buffer_of tb g] \<and>
           (\<forall>x \<in> set (butlast tr). load_ok (snd x)) \<and> tr \<noteq> [] \<and>
           \<not> load_ok (snd (last tr))" by blast
    with Some \<open>dorisClient f = Some c\<close> show ?thesis by simp
  qed
qed

lemma test_flush_ok:
  "\<exists>f'. Flush test_toByteStream test_load ((test_flusher ''root'')\<lparr>dorisClient := Some ()\<rparr>) 0
          [0, 1, 2]
     = (None, f', 1, [(''row'' @ [CHR 0x0A], Inr (test_response 4 1))])"
  by (simp add: Flush_def test_flusher_def NewFlusherDoris_def test_toByteStream_def
      test_load_def join_logs_def Let_def test_response_def)

lemma test_flush_fail:
  "\<exists>f'. Flush test_toByteStream test_load ((test_flusher ''root'')\<lparr>dorisClient := Some ()\<rparr>) 0
          [2, 3, 4]
     = (Some (Errorf ''failed to load data to doris: timeout''), f', 2,
        [(''row'' @ [CHR 0x0A], Inr (test_response 4 1)),
         (''row'' @ [CHR 0x0A], Inl (Errorf ''timeout''))])"
  by (simp add: Flush_def test_flusher_def NewFlusherDoris_def test_toByteStream_def
      test_load_def join_logs_def Let_def test_response_def)

lemma test_flush_uninit:
  "Flush test_toByteStream test_load (test_flusher ''root'') 0 [2, 3, 4]
     = (Some (Errorf ''doris client not initialized''), test_flusher ''root'', 0, [])"
  by (simp add: Flush_def test_flusher_def NewFlusherDoris_def)

theorem Flush_outcomes_witness:
  "dorisClient (test_flusher ''root'') = None \<and>
   fst (Flush test_toByteStream test_load (test_flusher ''root'') (0::nat) [2, 3, 4::nat])
     = Some (Errorf ''doris client not initialized'') \<and>
   fst (Flush test_toByteStream test_load ((test_flusher ''root'')\<lparr>dorisClient := Some ()\<rparr>)
         (0::nat) [0, 1, 2::nat]) = None \<and>
   sent_buffers test_toByteStream [0, 1, 2::nat] = [''row'' @ [CHR 0x0A]] \<and>
   fst (Flush test_toByteStream test_load ((test_flusher ''root'')\<lparr>dorisClient := Some ()\<rparr>)
         (0::nat) [2, 3, 4::nat]) \<noteq> None \<and>
   (\<exists>pre g post. [2, 3, 4::nat] = pre @ g # post \<and> \<not> skipped test_toByteStream g \<and>
      sent_buffers test_toByteStream pre @ [buffer_of test_toByteStream g]
        = [''row'' @ [CHR 0x0A], ''row'' @ [CHR 0x0A]])"
proof -
  let ?f = "(test_flusher ''root'')\<lparr>dorisClient := Some ()\<rparr>"
  have c: "dorisClient (test_flusher ''root'') = None" "dorisClient ?f \<noteq> None"
    by (simp_all add: test_flusher_def NewFlusherDoris_def)
  from test_flush_ok obtain f1 where
    1: "Flush test_toByteStream test_load ?f 0 [0, 1, 2]
          = (None, f1, 1, [(''row'' @ [CHR 0x0A], Inr (test_response 4 1))])" by blast
  from test_flush_fail obtain f2 where
    2: "Flush test_toByteStream test_load ?f 0 [2, 3, 4]
          = (Some (Errorf ''failed to load data to doris: timeout''), f2, 2,
             [(''row'' @ [CHR 0x0A], Inr (test_response 4 1)),
              (''row'' @ [CHR 0x0A], Inl (Errorf ''timeout''))])" by blast
  have a: "fst (Flush test_toByteStream test_load (test_flusher ''root'') (0::nat) [2, 3, 4::nat])
     = Some (Errorf ''doris client not initialized'')"
    using Flush_outcomes [OF test_flush_uninit] c(1) by (simp add: test_flush_uninit)
  have b: "sent_buffers test_toByteStream [0, 1, 2::nat] = [''row'' @ [CHR 0x0A]]"
    using Flush_outcomes [OF 1] c(2) by simp
  have d: "\<exists>pre g post. [2, 3, 4::nat] = pre @ g # post \<and> \<not> skipped test_toByteStream g \<and>
      sent_buffers test_toByteStream pre @ [buffer_of test_toByteStream g]
        = [''row'' @ [CHR 0x0A], ''row'' @ [CHR 0x0A]]"
  proof -
    from Flush_outcomes [OF 2] c(2)
    obtain pre g post where h: "[2, 3, 4::nat] = pre @ g # post" "\<not> skipped test_toByteStream g"
      "map fst [(''row'' @ [CHR 0x0A], Inr (test_response 4 1)),
                (''row'' @ [CHR 0x0A], Inl (Errorf ''timeout''))]
         = sent_buffers test_toByteStream pre @ [buffer_of test_toByteStream g]"
      by blast
    have "map fst [(''row'' @ [CHR 0x0A], Inr (test_response 4 1)),
                   (''row'' @ [CHR 0x0A], Inl (Errorf ''timeout''))]
            = [''row'' @ [CHR 0x0A], ''row'' @ [CHR 0x0A]]" by simp
    with h(3) have "sent_buffers test_toByteStream pre @ [buffer_of test_toByteStream g]
            = [''row'' @ [CHR 0x0A], ''row'' @ [CHR 0x0A]]" by (simp only:)
    with h(1,2) show ?thesis by blast
  qed
  have e: "fst (Flush test_toByteStream test_load ?f (0::nat) [0, 1, 2::nat]) = None"
    "fst (Flush test_toByteStream test_load ?f (0::nat) [2, 3, 4::nat]) \<noteq> None"
    by (simp_all only: 1 2 fst_conv option.simps not_False_eq_True)
  from a b c(1) d e show ?thesis by blast
qed

section \<open>Statistics\<close>

lemma updateStatistics_fields:
  "totalBytes (updateStatistics b r s) = totalBytes s + b \<and>
   totalRows (updateStatistics b r s) = totalRows s + r \<and>
   lastBytes (updateStatistics b r s) = lastBytes s + b \<and>
   lastRows (updateStatistics b r s) = lastRows s + r"
  by (simp add: updateStatistics_def)

lemma logProgress_fields:
  "totalBytes (stats (logProgress now f)) = totalBytes (stats f) \<and>
   totalRows (stats (logProgress now f)) = totalRows (stats f) \<and>
   lastBytes (stats (logProgress now f)) = 0 \<and>
   lastRows (stats (logProgress now f)) = 0"
  by (simp add: logProgress_def logProgress_stats_def logger_def Let_def)

lemma word_add_no_wrap:
  fixes a b :: "64 word"
  shows "unat a + unat b < 2 ^ 64 \<Longrightarrow> a \<le> a + b"
  by (simp add: no_olen_add_nat)

lemma Flush_account:
  "Flush tb ld f w gs = (r, f', w', tr) \<Longrightarrow> stats f' = account (stats f) tr"
proof (cases "dorisClient f")
  case None
  assume "Flush tb ld f w gs = (r, f', w', tr)"
  with None show ?thesis by (auto simp: Flush_def account_def)
next
  case (Some c)
  assume "Flush tb ld f w gs = (r, f', w', tr)"
  with Some have "flush_loop tb (ld c) f w [] gs = (r, f', w', tr)"
    by (simp add: Flush_def)
  from flush_loop_post [OF this] show ?thesis by simp
qed

text \<open>
  C7, as the code has it. The statistics after \<open>Flush\<close> are those before it with the
  bytes and rows of every successful load added, in order. An update adds its bytes and
  rows to the lifetime and to the windowed counters, modulo \<open>2 ^ 64\<close>; the report zeroes
  the windowed counters and keeps the lifetime ones; a lifetime counter does not decrease
  in an update whose sum stays below \<open>2 ^ 64\<close>, and never in a report.
\<close>

theorem statistics_counters:
  "(Flush tb ld f w gs = (r, f', w', tr) \<longrightarrow> stats f' = account (stats f) tr) \<and>
   totalBytes (updateStatistics b n s) = totalBytes s + b \<and>
   totalRows (updateStatistics b n s) = totalRows s + n \<and>
   lastBytes (updateStatistics b n s) = lastBytes s + b \<and>
   lastRows (updateStatistics b n s) = lastRows s + n \<and>
   totalBytes (stats (logProgress now f)) = totalBytes (stats f) \<and>
   totalRows (stats (logProgress now f)) = totalRows (stats f) \<and>
   lastBytes (stats (logProgress now f)) = 0 \<and>
   lastRows (stats (logProgress now f)) = 0 \<and>
   (unat (totalBytes s) + unat b < 2 ^ 64 \<longrightarrow>
      totalBytes s \<le> totalBytes (updateStatistics b n s)) \<and>
   (unat (totalRows s) + unat n < 2 ^ 64 \<longrightarrow>
      totalRows s \<le> totalRows (updateStatistics b n s))"
  using updateStatistics_fields [of b n s] logProgress_fields [of now f]
    word_add_no_wrap [of "totalBytes s" b] word_add_no_wrap [of "totalRows s" n]
    Flush_account [of tb ld f w gs r f' w' tr]
  by simp

theorem statistics_counters_witness:
  "unat (totalBytes (stats0 0)) + unat (4 :: 64 word) < 2 ^ 64 \<and>
   unat (totalRows (stats0 0)) + unat (1 :: 64 word) < 2 ^ 64 \<and>
   totalBytes (stats0 0) \<le> totalBytes (updateStatistics 4 1 (stats0 0)) \<and>
   totalRows (stats0 0) \<le> totalRows (updateStatistics 4 1 (stats0 0)) \<and>
   totalBytes (updateStatistics 4 1 (stats0 0)) = 4 \<and>
   totalBytes (stats (fst (snd (Flush test_toByteStream test_load
      ((test_flusher ''root'')\<lparr>dorisClient := Some ()\<rparr>) (0::nat) [0, 1, 2::nat])))) = 4"
proof -
  let ?f = "(test_flusher ''root'')\<lparr>dorisClient := Some ()\<rparr>"
  have h: "unat (totalBytes (stats0 0)) + unat (4 :: 64 word) < 2 ^ 64"
    "unat (totalRows (stats0 0)) + unat (1 :: 64 word) < 2 ^ 64"
    by (simp_all add: stats0_def)
  from test_flush_ok obtain f1 where
    1: "Flush test_toByteStream test_load ?f 0 [0, 1, 2]
          = (None, f1, 1, [(''row'' @ [CHR 0x0A], Inr (test_response 4 1))])" by blast
  from statistics_counters
         [of test_toByteStream test_load ?f 0 "[0, 1, 2]" None f1 1
             "[(''row'' @ [CHR 0x0A], Inr (test_response 4 1))]" 4 1 "stats0 0" 0] 1
  have s: "stats f1 = account (stats ?f) [(''row'' @ [CHR 0x0A], Inr (test_response 4 1))]"
    and m: "totalBytes (stats0 0) \<le> totalBytes (updateStatistics 4 1 (stats0 0))"
      "totalRows (stats0 0) \<le> totalRows (updateStatistics 4 1 (stats0 0))"
    using h by blast+
  have "totalBytes (stats f1) = 4"
    unfolding s
    by (simp add: account_def test_response_def test_flusher_def NewFlusherDoris_def
        stats0_def updateStatistics_def)
  then have "totalBytes (stats (fst (snd (Flush test_toByteStream test_load ?f (0::nat)
               [0, 1, 2::nat])))) = 4"
    by (simp only: 1 fst_conv snd_conv)
  with h m show ?thesis by (simp add: updateStatistics_def stats0_def)
qed

text \<open>
  The claim as written fails: after a successful load whose response reports \<open>-1\<close>
  bytes (\<open>2 ^ 64 - 1\<close> once converted to \<^verbatim>\<open>uint64\<close>), the next successful load of one
  byte takes the lifetime byte counter back to zero.
\<close>

theorem lifetime_counter_wraps:
  "totalBytes (stat_step (stat_step (stats0 0) (Update (- 1) 0)) (Update 1 0))
     < totalBytes (stat_step (stats0 0) (Update (- 1) 0))"
  by (simp add: updateStatistics_def stats0_def word_gt_0)

section \<open>Replayable request bodies\<close>

lemma attempts_buffer:
  "attempts (BufferStrategy buf) r ns = Inr (replicate (length ns) buf, r)"
  by (induction ns) simp_all

lemma attempts_seeker:
  "\<not> seek_fails r \<Longrightarrow>
     \<exists>r'. attempts SeekerStrategy r ns = Inr (replicate (length ns) (content r), r') \<and>
          content r' = content r \<and> drained r' = drained r \<and> seek_fails r' = seek_fails r"
proof (induction ns arbitrary: r)
  case Nil
  then show ?case by simp
next
  case (Cons n ns)
  let ?r1 = "consume n Original (r\<lparr>offset := 0\<rparr>)"
  have "\<not> seek_fails ?r1" using Cons.prems by simp
  from Cons.IH [OF this] obtain r' where
    "attempts SeekerStrategy ?r1 ns = Inr (replicate (length ns) (content ?r1), r')"
    "content r' = content ?r1" "drained r' = drained ?r1" "seek_fails r' = seek_fails ?r1"
    by blast
  then show ?case using Cons.prems by simp
qed

lemma attempts_seek_fails:
  "seek_fails r \<Longrightarrow> attempts SeekerStrategy r (n # ns) = Inl (Errorf ''failed to seek to start'')"
  by simp

lemma attempts_of_seekable:
  assumes "makeGetBody r = Inr (st, r0)" "attempts st r0 ns = Inr (bs, r')" "seekable r"
  shows "st = SeekerStrategy \<and> bs = replicate (length ns) (content r) \<and> drained r' = drained r"
proof -
  from assms have st: "st = SeekerStrategy" "r0 = r" by (auto simp: makeGetBody_def)
  show ?thesis
  proof (cases "seek_fails r")
    case True
    with assms st have "ns = []" by (cases ns) simp_all
    with assms st show ?thesis by simp
  next
    case False
    from attempts_seeker [OF False, of ns] assms st show ?thesis by auto
  qed
qed

lemma attempts_of_plain:
  assumes "makeGetBody r = Inr (st, r0)" "attempts st r0 ns = Inr (bs, r')" "\<not> seekable r"
  shows "st = BufferStrategy (drop (offset r) (content r)) \<and>
         bs = replicate (length ns) (drop (offset r) (content r)) \<and>
         drained r0 = drained r + 1 \<and> offset r0 = length (content r) \<and> r' = r0"
  using assms by (auto simp: makeGetBody_def attempts_buffer split: if_splits)

lemma nth_replicate_first: "i < n \<Longrightarrow> replicate n x ! 0 = x"
  by (cases n) simp_all

lemma attempts_same:
  assumes "makeGetBody r = Inr (st, r0)" "attempts st r0 ns = Inr (bs, r')"
  shows "length bs = length ns \<and> (\<forall>i < length bs. bs ! i = bs ! 0)"
  using attempts_of_seekable [OF assms] attempts_of_plain [OF assms]
  by (cases "seekable r") (auto simp: nth_replicate_first)

lemma attempts_total:
  assumes "if seekable r then \<not> seek_fails r else \<not> read_fails r"
  shows "\<exists>st r0 bs r'. makeGetBody r = Inr (st, r0) \<and> attempts st r0 ns = Inr (bs, r')"
proof (cases "seekable r")
  case True
  with assms have "\<not> seek_fails r" by simp
  from attempts_seeker [OF this, of ns] True show ?thesis
    by (auto simp: makeGetBody_def)
next
  case False
  with assms show ?thesis by (auto simp: makeGetBody_def attempts_buffer)
qed

lemma getBodyFunc_seeker:
  "getBodyFunc SeekerStrategy r = Inr (b, r1) \<Longrightarrow>
     b = Original \<and> offset r1 = 0 \<and> body_bytes b r1 = content r"
  by (auto split: if_splits)

lemma getBodyFunc_buffer:
  "getBodyFunc (BufferStrategy buf) r = Inr (b, r1) \<Longrightarrow>
     b = Buffered buf \<and> r1 = r \<and> body_bytes b r1 = buf"
  by auto

text \<open>
  C4. Once the strategy has been chosen, every attempt of a run is given the same bytes,
  however much of its body each attempt read. For a reader that can seek, every attempt
  is given the reader itself, set back to offset zero, and so the whole content; the
  reader is never drained into a buffer. For a reader that cannot seek, the choice of the
  strategy drains it, once, and every attempt, the first included, is given a new reader
  over that buffer: the attempts leave the caller's reader as the draining left it. The
  run returns the bodies unless \<open>Seek\<close> or the draining \<open>Read\<close> fails.
\<close>

theorem body_replay:
  "(makeGetBody r = Inr (st, r0) \<and> attempts st r0 ns = Inr (bs, r') \<longrightarrow>
      length bs = length ns \<and> (\<forall>i < length bs. bs ! i = bs ! 0) \<and>
      (seekable r \<longrightarrow>
         st = SeekerStrategy \<and> bs = replicate (length ns) (content r) \<and>
         drained r' = drained r) \<and>
      (\<not> seekable r \<longrightarrow>
         st = BufferStrategy (drop (offset r) (content r)) \<and>
         bs = replicate (length ns) (drop (offset r) (content r)) \<and>
         drained r0 = drained r + 1 \<and> offset r0 = length (content r) \<and> r' = r0)) \<and>
   (getBodyFunc SeekerStrategy r = Inr (b, r1) \<longrightarrow>
      b = Original \<and> offset r1 = 0 \<and> body_bytes b r1 = content r) \<and>
   (getBodyFunc (BufferStrategy buf) r = Inr (b, r1) \<longrightarrow>
      b = Buffered buf \<and> r1 = r \<and> body_bytes b r1 = buf) \<and>
   ((if seekable r then \<not> seek_fails r else \<not> read_fails r) \<longrightarrow>
      (\<exists>st r0 bs r'. makeGetBody r = Inr (st, r0) \<and> attempts st r0 ns = Inr (bs, r')))"
  using attempts_of_seekable [of r st r0 ns bs r'] attempts_of_plain [of r st r0 ns bs r']
    attempts_same [of r st r0 ns bs r'] attempts_total [of r ns]
    getBodyFunc_seeker [of r b r1] getBodyFunc_buffer [of buf r b r1]
  by blast

lemma test_seeker_run:
  "makeGetBody (test_reader True) = Inr (SeekerStrategy, test_reader True) \<and>
   attempts SeekerStrategy (test_reader True) [0, 2, 5]
     = Inr ([''a,b'', ''a,b'', ''a,b''], (test_reader True)\<lparr>offset := 3\<rparr>)"
  by (simp add: makeGetBody_def test_reader_def)

lemma test_buffer_run:
  "makeGetBody (test_reader False)
     = Inr (BufferStrategy '',b'', (test_reader False)\<lparr>offset := 3, drained := 1\<rparr>) \<and>
   attempts (BufferStrategy '',b'') ((test_reader False)\<lparr>offset := 3, drained := 1\<rparr>) [0, 2, 5]
     = Inr (['',b'', '',b'', '',b''], (test_reader False)\<lparr>offset := 3, drained := 1\<rparr>)"
  by (simp add: makeGetBody_def test_reader_def)

theorem body_replay_witness:
  "makeGetBody (test_reader True) = Inr (SeekerStrategy, test_reader True) \<and>
   attempts SeekerStrategy (test_reader True) [0, 2, 5]
     = Inr ([''a,b'', ''a,b'', ''a,b''], (test_reader True)\<lparr>offset := 3\<rparr>) \<and>
   [''a,b'', ''a,b'', ''a,b''] = replicate (length [0, 2, 5 :: nat]) (content (test_reader True)) \<and>
   makeGetBody (test_reader False)
     = Inr (BufferStrategy '',b'', (test_reader False)\<lparr>offset := 3, drained := 1\<rparr>) \<and>
   attempts (BufferStrategy '',b'') ((test_reader False)\<lparr>offset := 3, drained := 1\<rparr>) [0, 2, 5]
     = Inr (['',b'', '',b'', '',b''], (test_reader False)\<lparr>offset := 3, drained := 1\<rparr>) \<and>
   drained ((test_reader False)\<lparr>offset := 3, drained := 1\<rparr>) = drained (test_reader False) + 1"
proof -
  have sk: "seekable (test_reader True)" "\<not> seekable (test_reader False)"
    by (simp_all add: test_reader_def)
  from body_replay [of "test_reader True" SeekerStrategy "test_reader True" "[0, 2, 5]"
                      "[''a,b'', ''a,b'', ''a,b'']" "(test_reader True)\<lparr>offset := 3\<rparr>"]
       test_seeker_run sk(1)
  have 1: "[''a,b'', ''a,b'', ''a,b''] = replicate (length [0, 2, 5 :: nat]) (content (test_reader True))"
    by blast
  from body_replay [of "test_reader False" "BufferStrategy '',b''"
                      "(test_reader False)\<lparr>offset := 3, drained := 1\<rparr>" "[0, 2, 5]"
                      "['',b'', '',b'', '',b'']"
                      "(test_reader False)\<lparr>offset := 3, drained := 1\<rparr>"]
       test_buffer_run sk(2)
  have 2: "drained ((test_reader False)\<lparr>offset := 3, drained := 1\<rparr>) = drained (test_reader False) + 1"
    by blast
  from 1 2 test_seeker_run test_buffer_run show ?thesis by blast
qed

section \<open>The retry loop and the label\<close>

declare retry_loop.simps [simp del]

lemma requests_append: "requests (a @ b) = requests a @ requests b"
  by (induction a rule: requests.induct) simp_all

lemma sleeps_append: "sleeps (a @ b) = sleeps a @ sleeps b"
  by (induction a rule: sleeps.induct) simp_all

lemma logged_append: "logged (a @ b) = logged a @ logged b"
  by (induction a rule: logged.induct) simp_all

lemma retry_loop_cases:
  assumes "retry_loop w cfg l data k e tr = (res, tr', e')"
  obtains
    (noep) "selectEndpoint w cfg k = None" "tr' = tr" "res = Inl NoEndpoint" "e' = e"
  | (stop) ep where "selectEndpoint w cfg k = Some ep"
      "tr' = tr @ [Attempt k (build w cfg l data ep)]"
      "e' = e + fst (network w k (build w cfg l data ep))"
      "load_ok (snd (network w k (build w cfg l data ep))) \<or>
       (case CRetry cfg of None \<Rightarrow> True | Some p \<Rightarrow> \<not> within_budget p k e')"
  | (again) ep p where "selectEndpoint w cfg k = Some ep" "CRetry cfg = Some p"
      "\<not> load_ok (snd (network w k (build w cfg l data ep)))"
      "within_budget p k (e + fst (network w k (build w cfg l data ep)))"
      "retry_loop w cfg l data (Suc k)
         (e + fst (network w k (build w cfg l data ep))
            + backoff p k (e + fst (network w k (build w cfg l data ep))))
         (tr @ [Attempt k (build w cfg l data ep),
                Sleep k (backoff p k (e + fst (network w k (build w cfg l data ep))))
                  (e + fst (network w k (build w cfg l data ep)))])
       = (res, tr', e')"
proof (cases "selectEndpoint w cfg k")
  case None
  with assms have "tr' = tr" "res = Inl NoEndpoint" "e' = e"
    by (simp_all add: retry_loop.simps [of w cfg l data k e tr])
  with None show ?thesis by (rule noep)
next
  case (Some ep)
  let ?net = "network w k (build w cfg l data ep)"
  show ?thesis
  proof (cases "\<not> load_ok (snd ?net) \<and>
                (case CRetry cfg of None \<Rightarrow> False | Some p \<Rightarrow> within_budget p k (e + fst ?net))")
    case True
    then obtain p where p: "CRetry cfg = Some p" "within_budget p k (e + fst ?net)"
      by (auto split: option.splits)
    from True have nok: "\<not> load_ok (snd ?net)" by simp
    from assms Some p nok
    have "retry_loop w cfg l data (Suc k) (e + fst ?net + backoff p k (e + fst ?net))
            (tr @ [Attempt k (build w cfg l data ep), Sleep k (backoff p k (e + fst ?net)) (e + fst ?net)])
          = (res, tr', e')"
      by (simp add: retry_loop.simps [of w cfg l data k e tr] Let_def)
    with Some p(1) nok p(2) show ?thesis by (rule again)
  next
    case False
    with assms Some
    have a: "tr' = tr @ [Attempt k (build w cfg l data ep)]" "e' = e + fst ?net"
      by (auto simp: retry_loop.simps [of w cfg l data k e tr] Let_def split: if_splits)
    from False a have "load_ok (snd ?net) \<or>
       (case CRetry cfg of None \<Rightarrow> True | Some p \<Rightarrow> \<not> within_budget p k e')"
      by (auto split: option.splits)
    with Some a show ?thesis by (rule stop)
  qed
qed

lemma retries_left_again:
  "CRetry cfg = Some p \<Longrightarrow> within_budget p k e \<Longrightarrow>
     retries_left cfg k = Suc (retries_left cfg (Suc k))"
  by (auto simp: retries_left_def within_budget_def)

lemma retry_loop_attempts:
  "retry_loop w cfg l data k e tr = (res, tr', e') \<Longrightarrow>
     length (requests tr') \<le> length (requests tr) + Suc (retries_left cfg k)"
proof (induction "retries_left cfg k" arbitrary: k e tr)
  case 0
  from "0.prems" show ?case
  proof (cases rule: retry_loop_cases)
    case noep then show ?thesis by simp
  next
    case (stop ep) then show ?thesis by (simp add: requests_append)
  next
    case (again ep p)
    with retries_left_again [OF again(2,4)] "0.hyps" show ?thesis by simp
  qed
next
  case (Suc n)
  from Suc.prems show ?case
  proof (cases rule: retry_loop_cases)
    case noep then show ?thesis by simp
  next
    case (stop ep) then show ?thesis by (simp add: requests_append)
  next
    case (again ep p)
    have n: "n = retries_left cfg (Suc k)"
      using retries_left_again [OF again(2,4)] Suc.hyps(2) by simp
    from Suc.hyps(1) [OF n again(5)] retries_left_again [OF again(2,4)]
    show ?thesis by (simp add: requests_append)
  qed
qed


lemma retry_loop_sleeps:
  assumes p: "CRetry cfg = Some p" and T: "0 < MaxTotalTimeMs p"
  shows "retry_loop w cfg l data k e tr = (res, tr', e') \<Longrightarrow>
     (\<forall>ev \<in> set tr. sleep_ok p ev) \<Longrightarrow>
     (\<forall>ev \<in> set tr'. sleep_ok p ev) \<and>
     sum_list (sleeps tr') \<le> sum_list (sleeps tr) + (MaxTotalTimeMs p - e)"
proof (induction "retries_left cfg k" arbitrary: k e tr)
  case 0
  from "0.prems"(1) show ?case
  proof (cases rule: retry_loop_cases)
    case noep then show ?thesis using "0.prems"(2) by simp
  next
    case (stop ep) then show ?thesis using "0.prems"(2) by (auto simp: sleeps_append)
  next
    case (again ep q)
    with retries_left_again [OF again(2,4)] "0.hyps" show ?thesis by simp
  qed
next
  case (Suc n)
  from Suc.prems(1) show ?case
  proof (cases rule: retry_loop_cases)
    case noep then show ?thesis using Suc.prems(2) by simp
  next
    case (stop ep) then show ?thesis using Suc.prems(2) by (auto simp: sleeps_append)
  next
    case (again ep q)
    have q: "q = p" using again(2) p by simp
    let ?e1 = "e + fst (network w k (build w cfg l data ep))"
    let ?s = "backoff p k ?e1"
    have n: "n = retries_left cfg (Suc k)"
      using retries_left_again [OF again(2,4)] Suc.hyps(2) by simp
    have lt: "?e1 < MaxTotalTimeMs p" using again(4) T q by (simp add: within_budget_def)
    have s: "?s = min (BaseIntervalMs p * 2 ^ (k - 1)) (MaxTotalTimeMs p - ?e1)"
      using T by (simp add: backoff_def)
    have ok: "\<forall>ev \<in> set (tr @ [Attempt k (build w cfg l data ep), Sleep k ?s ?e1]). sleep_ok p ev"
      using Suc.prems(2) s by auto
    from Suc.hyps(1) [OF n again(5) [unfolded q] ok]
    have a: "\<forall>ev \<in> set tr'. sleep_ok p ev"
      and b: "sum_list (sleeps tr') \<le>
               sum_list (sleeps (tr @ [Attempt k (build w cfg l data ep), Sleep k ?s ?e1]))
                 + (MaxTotalTimeMs p - (?e1 + ?s))" by simp_all
    have "?s \<le> MaxTotalTimeMs p - ?e1" using s by simp
    with b lt have "sum_list (sleeps tr') \<le> sum_list (sleeps tr) + (MaxTotalTimeMs p - e)"
      by (simp add: sleeps_append)
    with a show ?thesis by simp
  qed
qed

lemma retry_loop_None:
  "CRetry cfg = None \<Longrightarrow> selectEndpoint w cfg k = Some ep \<Longrightarrow>
     retry_loop w cfg l data k e tr =
       (if load_ok (snd (network w k (build w cfg l data ep)))
        then Inr (projr (snd (network w k (build w cfg l data ep))))
        else Inl (Exhausted k (e + fst (network w k (build w cfg l data ep)))
                    (snd (network w k (build w cfg l data ep)))),
        tr @ [Attempt k (build w cfg l data ep)],
        e + fst (network w k (build w cfg l data ep)))"
  by (subst retry_loop.simps) (simp add: Let_def)

lemma retry_loop_no_policy:
  "CRetry cfg = None \<Longrightarrow> retry_loop w cfg l data k e tr = (res, tr', e') \<Longrightarrow>
     sleeps tr' = sleeps tr \<and>
     (Endpoints cfg \<noteq> [] \<longrightarrow> length (requests tr') = Suc (length (requests tr)))"
proof -
  assume n: "CRetry cfg = None" and r: "retry_loop w cfg l data k e tr = (res, tr', e')"
  from r show ?thesis
  proof (cases rule: retry_loop_cases)
    case noep then show ?thesis by (simp add: selectEndpoint_def split: if_splits)
  next
    case (stop ep) then show ?thesis by (simp add: sleeps_append requests_append)
  next
    case (again ep p) with n show ?thesis by simp
  qed
qed



lemma requests_Logged: "requests (map (\<lambda>(lv, m). Logged lv m) ws) = []"
  by (induction ws) auto

lemma sleeps_Logged: "sleeps (map (\<lambda>(lv, m). Logged lv m) ws) = []"
  by (induction ws) auto

lemma logged_Logged: "logged (map (\<lambda>(lv, m). Logged lv m) ws) = ws"
  by (induction ws) auto

lemma sleep_ok_Logged: "\<forall>ev \<in> set (map (\<lambda>(lv, m). Logged lv m) ws). sleep_ok p ev"
  by (induction ws) auto

lemma Load_retry_loop:
  "Load w cfg data = (res, tr, warnings) \<Longrightarrow>
     \<exists>e. retry_loop w cfg (fst (labelFor w cfg)) data 1 0
            (map (\<lambda>(lv, m). Logged lv m) (snd (labelFor w cfg))) = (res, tr, e) \<and>
         warnings = logged tr"
  by (auto simp: Load_def split: prod.splits)





text \<open>
  C2. Under a policy with a time cap \<open>T\<close>, every sleep of a submission is
  \<open>min (base * 2 ^ (k - 1)) (T - elapsed)\<close>, where \<open>k\<close> is the number of the attempt
  that has just failed (the sleep before retry \<open>k\<close>) and \<open>elapsed\<close> the time used up
  to then; the sleeps of one submission add up to at most \<open>T\<close>.
\<close>

theorem backoff_within_budget:
  "CRetry cfg = Some p \<Longrightarrow> 0 < MaxTotalTimeMs p \<Longrightarrow> Load w cfg data = (res, tr, warnings) \<Longrightarrow>
     (\<forall>ev \<in> set tr. sleep_ok p ev) \<and> sum_list (sleeps tr) \<le> MaxTotalTimeMs p"
proof -
  assume p: "CRetry cfg = Some p" and T: "0 < MaxTotalTimeMs p"
    and L: "Load w cfg data = (res, tr, warnings)"
  from Load_retry_loop [OF L] obtain e where
    r: "retry_loop w cfg (fst (labelFor w cfg)) data 1 0
          (map (\<lambda>(lv, m). Logged lv m) (snd (labelFor w cfg))) = (res, tr, e)" by blast
  from retry_loop_sleeps [OF p T r sleep_ok_Logged] show ?thesis
    by (simp add: sleeps_Logged)
qed

text \<open>
  C3. Under a policy with \<open>N\<close> retries a submission sends at most \<open>N + 1\<close> requests.
  Without a policy it sends at most one request and never sleeps, and exactly one when
  the configuration has an endpoint.
\<close>

theorem attempts_bounded:
  "Load w cfg data = (res, tr, warnings) \<Longrightarrow>
     (\<forall>p. CRetry cfg = Some p \<longrightarrow> length (requests tr) \<le> MaxRetryTimes p + 1) \<and>
     (CRetry cfg = None \<longrightarrow>
        length (requests tr) \<le> 1 \<and> sleeps tr = [] \<and>
        (Endpoints cfg \<noteq> [] \<longrightarrow> length (requests tr) = 1))"
proof -
  assume L: "Load w cfg data = (res, tr, warnings)"
  from Load_retry_loop [OF L] obtain e where
    r: "retry_loop w cfg (fst (labelFor w cfg)) data 1 0
          (map (\<lambda>(lv, m). Logged lv m) (snd (labelFor w cfg))) = (res, tr, e)" by blast
  from retry_loop_attempts [OF r]
  have a: "length (requests tr) \<le> Suc (retries_left cfg 1)" by (simp add: requests_Logged)
  have 1: "\<forall>p. CRetry cfg = Some p \<longrightarrow> length (requests tr) \<le> MaxRetryTimes p + 1"
    using a by (auto simp: retries_left_def)
  have 2: "CRetry cfg = None \<longrightarrow>
        length (requests tr) \<le> 1 \<and> sleeps tr = [] \<and>
        (Endpoints cfg \<noteq> [] \<longrightarrow> length (requests tr) = 1)"
  proof
    assume n: "CRetry cfg = None"
    from retry_loop_no_policy [OF n r] a n
    show "length (requests tr) \<le> 1 \<and> sleeps tr = [] \<and>
        (Endpoints cfg \<noteq> [] \<longrightarrow> length (requests tr) = 1)"
      by (simp add: retries_left_def requests_Logged sleeps_Logged)
  qed
  from 1 2 show ?thesis by blast
qed

lemmas Load_eval = Load_def labelFor_def retry_loop.simps selectEndpoint_def test_config_def
  all_fail_def Let_def load_ok_def within_budget_def backoff_def
  DefaultRetry_def DefaultJSONFormat_def scenario1_def scenario2_def



theorem backoff_within_budget_witness:
  "CRetry (test_config (Some scenario2) OFF) = Some scenario2 \<and>
   0 < MaxTotalTimeMs scenario2 \<and>
   sleeps (fst (snd (Load all_fail (test_config (Some scenario2) OFF) ''x'')))
     = [1000, 2000, 2000] \<and>
   length (requests (fst (snd (Load all_fail (test_config (Some scenario2) OFF) ''x'')))) = 4 \<and>
   sum_list (sleeps (fst (snd (Load all_fail (test_config (Some scenario2) OFF) ''x''))))
     \<le> MaxTotalTimeMs scenario2"
proof -
  let ?cfg = "test_config (Some scenario2) OFF"
  obtain res tr wn where L: "Load all_fail ?cfg ''x'' = (res, tr, wn)"
    by (cases "Load all_fail ?cfg ''x''")
  have p: "CRetry ?cfg = Some scenario2" by (simp add: test_config_def)
  have T: "0 < MaxTotalTimeMs scenario2" by (simp add: scenario2_def)
  have s: "sleeps (fst (snd (Load all_fail ?cfg ''x''))) = [1000, 2000, 2000]"
    "length (requests (fst (snd (Load all_fail ?cfg ''x'')))) = 4"
    by (simp_all add: Load_eval)
  from backoff_within_budget [OF p T L] L
  have "sum_list (sleeps (fst (snd (Load all_fail ?cfg ''x'')))) \<le> MaxTotalTimeMs scenario2"
    by simp
  with p T s show ?thesis by blast
qed

theorem attempts_bounded_witness:
  "length (requests (fst (snd (Load all_fail (test_config (Some scenario1) OFF) ''x'')))) = 4 \<and>
   sleeps (fst (snd (Load all_fail (test_config (Some scenario1) OFF) ''x'')))
     = [1000, 2000, 4000] \<and>
   length (requests (fst (snd (Load all_fail (test_config (Some scenario1) OFF) ''x''))))
     \<le> MaxRetryTimes scenario1 + 1 \<and>
   CRetry (test_config None OFF) = None \<and>
   length (requests (fst (snd (Load all_fail (test_config None OFF) ''x'')))) = 1 \<and>
   sleeps (fst (snd (Load all_fail (test_config None OFF) ''x''))) = []"
proof -
  let ?c1 = "test_config (Some scenario1) OFF"
  let ?c0 = "test_config None OFF"
  obtain res tr wn where L1: "Load all_fail ?c1 ''x'' = (res, tr, wn)"
    by (cases "Load all_fail ?c1 ''x''")
  obtain res0 tr0 wn0 where L0: "Load all_fail ?c0 ''x'' = (res0, tr0, wn0)"
    by (cases "Load all_fail ?c0 ''x''")
  have p: "CRetry ?c1 = Some scenario1" "CRetry ?c0 = None" "Endpoints ?c0 \<noteq> []"
    by (simp_all add: test_config_def)
  have s: "length (requests (fst (snd (Load all_fail ?c1 ''x'')))) = 4"
    "sleeps (fst (snd (Load all_fail ?c1 ''x''))) = [1000, 2000, 4000]"
    by (simp_all add: Load_eval)
  from attempts_bounded [OF L1] p(1) L1
  have a: "length (requests (fst (snd (Load all_fail ?c1 ''x'')))) \<le> MaxRetryTimes scenario1 + 1"
    by simp
  from attempts_bounded [OF L0] p(2,3) L0
  have b: "length (requests (fst (snd (Load all_fail ?c0 ''x'')))) = 1"
    "sleeps (fst (snd (Load all_fail ?c0 ''x''))) = []" by simp_all
  from s a b p(2) show ?thesis by blast
qed

end
